theory Spec2Isabelle
  imports Complex_Main "HOL-Library.Multiset" "HOL-Library.Product_Lexorder"
    "HOL-Library.List_Lexorder" "HOL-Library.Char_ord"
begin

section \<open>Data model (src/database/models.py)\<close>

text \<open>
  Each table is the list of its rows, in the order the engine scans them. A nullable
  column is an \<open>option\<close>, \<open>None\<close> being SQL's NULL; the DateTime columns have a
  default but are nullable. Only the columns that some analytic query reads are kept
  (\<open>full_name\<close>, \<open>email\<close>, \<open>join_date\<close>, \<open>is_active\<close>, \<open>media_url\<close> and
  \<open>is_public\<close> are read by none). A column name that occurs in several tables
  carries the table's name in front (\<open>posts.user_id\<close> is \<open>post_user_id\<close>).
  Timestamps are seconds on the integer line.
\<close>

type_synonym timestamp = int

record user =
  user_id :: int
  username :: string

record post =
  post_id :: int
  post_user_id :: int
  post_text :: "string option"
  post_time :: "timestamp option"

record comment =
  comment_id :: int
  comment_post_id :: int
  comment_user_id :: int
  parent_comment_id :: "int option"
  comment_text :: string
  comment_time :: "timestamp option"

record like =
  like_id :: int
  like_post_id :: "int option"
  like_comment_id :: "int option"
  like_user_id :: int
  like_time :: "timestamp option"

record follow =
  follower_id :: int
  followee_id :: int
  follow_time :: "timestamp option"

record database =
  users :: "user list"
  posts :: "post list"
  comments :: "comment list"
  likes :: "like list"
  follows :: "follow list"

subsection \<open>Table constraints\<close>

text \<open>
  The primary keys, the unique constraint on usernames, the foreign keys and the check
  constraint \<open>chk_no_self_follow\<close> of the schema. The queries do not depend on them;
  the properties that need them name them as hypotheses.
\<close>

definition pk_users :: "database \<Rightarrow> bool" where
  "pk_users db = distinct (map user_id (users db))"

definition unq_username :: "database \<Rightarrow> bool" where
  "unq_username db = distinct (map username (users db))"


definition pk_comments :: "database \<Rightarrow> bool" where
  "pk_comments db = distinct (map comment_id (comments db))"

definition pk_follows :: "database \<Rightarrow> bool" where
  "pk_follows db = distinct (map (\<lambda>f. (follower_id f, followee_id f)) (follows db))"

definition fk_follows :: "database \<Rightarrow> bool" where
  "fk_follows db =
     list_all (\<lambda>f. follower_id f \<in> set (map user_id (users db)) \<and>
                    followee_id f \<in> set (map user_id (users db))) (follows db)"

definition chk_no_self_follow :: "database \<Rightarrow> bool" where
  "chk_no_self_follow db = list_all (\<lambda>f. follower_id f \<noteq> followee_id f) (follows db)"

definition fk_comment_user :: "database \<Rightarrow> bool" where
  "fk_comment_user db =
     list_all (\<lambda>c. comment_user_id c \<in> set (map user_id (users db))) (comments db)"

section \<open>Relational operators used by the queries\<close>

text \<open>
  \<open>a JOIN b ON on\<close> pairs every row of \<open>a\<close> with the rows of \<open>b\<close> that match
  it; \<open>a LEFT JOIN b ON on\<close> keeps a row of \<open>a\<close> without a match, with NULL in
  the place of \<open>b\<close>.
\<close>

definition inner_join :: "'a list \<Rightarrow> 'b list \<Rightarrow> ('a \<Rightarrow> 'b \<Rightarrow> bool) \<Rightarrow> ('a \<times> 'b) list" where
  "inner_join xs ys on = concat (map (\<lambda>a. map (Pair a) (filter (on a) ys)) xs)"

definition left_join :: "'a list \<Rightarrow> 'b list \<Rightarrow> ('a \<Rightarrow> 'b \<Rightarrow> bool) \<Rightarrow> ('a \<times> 'b option) list" where
  "left_join xs ys on =
     concat (map (\<lambda>a. case filter (on a) ys of
                          [] \<Rightarrow> [(a, None)]
                        | b # bs \<Rightarrow> map (\<lambda>b'. (a, Some b')) (b # bs)) xs)"

text \<open>COUNT(DISTINCT e): the number of different non-NULL values of \<open>e\<close>.\<close>

definition count_distinct :: "'v option list \<Rightarrow> nat" where
  "count_distinct vs = length (remdups (List.map_filter id vs))"

text \<open>GROUP BY: one group per different key, holding the rows of that key.\<close>

definition group_by :: "('r \<Rightarrow> 'k) \<Rightarrow> 'r list \<Rightarrow> ('k \<times> 'r list) list" where
  "group_by key rows = map (\<lambda>k. (k, filter (\<lambda>r. key r = k) rows)) (remdups (map key rows))"

subsection \<open>Scalar functions and aggregates\<close>

text \<open>
  The queries are read by their relational meaning. The source mixes dialects
  (\<open>GROUP_CONCAT ... SEPARATOR\<close> is MySQL's, \<open>INTERVAL '... DAYS'\<close> PostgreSQL's).
  Where the engines differ in a way that a result depends on (the STDDEV aggregate, the
  place of NULL in a descending order) the engine is a parameter; \<open>config.py\<close> takes
  \<open>postgresql\<close> when the environment names none.
\<close>

datatype db_engine = PostgreSQL | MySQL

text \<open>A comparison with NULL is not true: the row is not kept.\<close>

definition ts_ge :: "timestamp option \<Rightarrow> timestamp \<Rightarrow> bool" where
  "ts_ge t s = (case t of None \<Rightarrow> False | Some x \<Rightarrow> s \<le> x)"

definition NULLIF :: "nat \<Rightarrow> nat \<Rightarrow> nat option" where
  "NULLIF a b = (if a = b then None else Some a)"

text \<open>ROUND(x, 2) on an exact number: to the nearest hundredth, a half away from zero.\<close>

definition sql_round2 :: "rat \<Rightarrow> rat" where
  "sql_round2 x = sgn x * of_int \<lfloor>\<bar>x\<bar> * 100 + 1 / 2\<rfloor> / 100"

text \<open>
  \<open>ROUND(n * 100.0 / NULLIF(d, 0), 2)\<close>: NULL when \<open>d\<close> is 0, since NULLIF gives
  NULL and a quotient by NULL and its rounding are NULL. The quotient is exact here; the
  digits an engine keeps of it before rounding are not modelled.
\<close>

definition percent_of :: "nat \<Rightarrow> nat \<Rightarrow> rat option" where
  "percent_of n d =
     map_option sql_round2 (map_option (\<lambda>d'. of_nat n * 100 / of_nat d') (NULLIF d 0))"

text \<open>MAX and AVG are NULL on no rows.\<close>

fun sql_max :: "nat list \<Rightarrow> nat option" where
  "sql_max [] = None"
| "sql_max (x # xs) = Some (fold max xs x)"

definition sql_avg :: "nat list \<Rightarrow> rat option" where
  "sql_avg xs = (if xs = [] then None else Some (of_nat (sum_list xs) / of_nat (length xs)))"

definition sql_avg_real :: "nat list \<Rightarrow> real option" where
  "sql_avg_real xs = (if xs = [] then None else Some (real (sum_list xs) / real (length xs)))"

text \<open>
  STDDEV. PostgreSQL's aggregate is \<open>stddev_samp\<close>: from the count \<open>N\<close>, the sum and
  the sum of squares it returns the root of \<open>(N * sumX2 - sumX * sumX) / (N * (N - 1))\<close>,
  and NULL when \<open>N\<close> is below 2. MySQL's is \<open>STDDEV_POP\<close>, which divides by \<open>N * N\<close>
  and is NULL only on no rows. Square roots are exact reals here.
\<close>

definition STDDEV :: "db_engine \<Rightarrow> nat list \<Rightarrow> real option" where
  "STDDEV eng xs =
     (let N = real (length xs); sumX = real (sum_list xs);
          sumX2 = real (sum_list (map (\<lambda>x. x * x) xs))
      in case eng of
           PostgreSQL \<Rightarrow> if length xs < 2 then None
                         else Some (sqrt ((N * sumX2 - sumX * sumX) / (N * (N - 1))))
         | MySQL \<Rightarrow> if xs = [] then None
                    else Some (sqrt ((N * sumX2 - sumX * sumX) / (N * N))))"

text \<open>
  ORDER BY. Rows that are equal in all sort expressions are returned in an order that
  the statement does not fix and that the engine is free to choose. \<open>ordered_by\<close> is
  the set of the results that a statement with this ORDER BY admits: the same rows,
  ascending in the key. What a property says about the order of a result, it says of
  every member of that set.

  \<open>order_by\<close> is one member, the one that keeps rows with equal keys in the order in
  which they were produced. It stands for the result where a property is about the rows
  and not about their order; it does not say which order an engine returns.
\<close>

definition ordered_by :: "('r \<Rightarrow> 'k::linorder) \<Rightarrow> 'r list \<Rightarrow> 'r list set" where
  "ordered_by key rows = {out. mset out = mset rows \<and> sorted (map key out)}"

definition order_by :: "('r \<Rightarrow> 'k::linorder) \<Rightarrow> 'r list \<Rightarrow> 'r list" where
  "order_by key rows = sort_key key rows"

text \<open>What the engine answers to a statement it does not run to its end.\<close>

datatype sql_error = SyntaxError | RecursionLimit

fun intercalate :: "string \<Rightarrow> string list \<Rightarrow> string" where
  "intercalate sep [] = []"
| "intercalate sep [x] = x"
| "intercalate sep (x # y # ys) = x @ sep @ intercalate sep (y # ys)"

section \<open>ContentAnalyzer (src/analytics/content.py)\<close>

subsection \<open>analyze_thread_depth\<close>

text \<open>
  \<^verbatim>\<open>WITH RECURSIVE comment_threads AS (
    SELECT comment_id, post_id, user_id, parent_comment_id, comment_text, 1 AS depth
    FROM comments WHERE parent_comment_id IS NULL
    UNION ALL
    SELECT c.comment_id, ..., ct.depth + 1 AS depth
    FROM comments c JOIN comment_threads ct ON c.parent_comment_id = ct.comment_id)\<close>

  A row of the common table expression is a comment with its depth (the column
  \<open>comment_time\<close>, which the expression does not select, is kept in the row and read
  nowhere). The non-recursive term gives the top-level comments; each round joins the
  comments to the rows of the round before; the rounds end with the first one that
  yields no row, and the result is all rounds appended.

  The statement runs on MySQL only (see below), and MySQL ends a recursion that needs
  more rounds than the session's \<open>cte_max_recursion_depth\<close> (1000 unless the session
  sets it) with an error. The bound is a parameter of the model.
\<close>

type_synonym thread_row = "comment \<times> nat"

definition cte_base :: "comment list \<Rightarrow> thread_row list" where
  "cte_base cs = map (\<lambda>c. (c, 1)) (filter (\<lambda>c. parent_comment_id c = None) cs)"

definition cte_step :: "comment list \<Rightarrow> thread_row list \<Rightarrow> thread_row list" where
  "cte_step cs w =
     map (\<lambda>(c, ct). (c, snd ct + 1))
       (inner_join cs w (\<lambda>c ct. parent_comment_id c = Some (comment_id (fst ct))))"

fun cte_loop :: "nat \<Rightarrow> comment list \<Rightarrow> thread_row list \<Rightarrow> sql_error + thread_row list" where
  "cte_loop 0 cs w = (if w = [] then Inr [] else Inl RecursionLimit)"
| "cte_loop (Suc n) cs w =
     (if w = [] then Inr []
      else case cte_loop n cs (cte_step cs w) of
             Inl e \<Rightarrow> Inl e
           | Inr rest \<Rightarrow> Inr (w @ rest))"

definition comment_threads :: "nat \<Rightarrow> comment list \<Rightarrow> sql_error + thread_row list" where
  "comment_threads cte_max_recursion_depth cs = cte_loop cte_max_recursion_depth cs (cte_base cs)"

record thread_depth_row =
  td_post_id :: int
  td_post_preview :: "string option"
  td_total_comments :: nat
  td_max_thread_depth :: nat
  td_avg_thread_depth :: rat
  td_unique_participants :: nat
  td_participants :: string

type_synonym thread_join_row = "(post \<times> thread_row) \<times> user"

definition thread_join :: "database \<Rightarrow> thread_row list \<Rightarrow> thread_join_row list" where
  "thread_join db cts =
     inner_join
       (inner_join (posts db) cts (\<lambda>p ct. post_id p = comment_post_id (fst ct)))
       (users db) (\<lambda>(p, ct) u. comment_user_id (fst ct) = user_id u)"

text \<open>
  \<^verbatim>\<open>SELECT p.post_id, SUBSTRING(p.post_text, 1, 50), COUNT(DISTINCT ct.comment_id),
         MAX(ct.depth), ROUND(AVG(ct.depth), 2), COUNT(DISTINCT ct.user_id),
         GROUP_CONCAT(DISTINCT u.username ORDER BY u.username SEPARATOR ', ')
  FROM posts p JOIN comment_threads ct ON p.post_id = ct.post_id
               JOIN users u ON ct.user_id = u.user_id
  GROUP BY p.post_id, p.post_text
  HAVING MAX(ct.depth) >= :min_depth
  ORDER BY max_thread_depth DESC, total_comments DESC\<close>

  One group of the outer query with its HAVING clause: the group gives a row when
  MAX(depth) is not NULL and reaches \<open>min_depth\<close>. Usernames are compared and
  sorted by their characters' codes, and neither the length at which the engine cuts
  the concatenation nor the digits it keeps of the average before rounding are
  modelled; no property below reads these two columns.
\<close>

definition thread_depth_group ::
  "int \<Rightarrow> (int \<times> string option) \<times> thread_join_row list \<Rightarrow> thread_depth_row option" where
  "thread_depth_group min_depth g =
     (case g of ((pid, ptext), rows) \<Rightarrow>
        let depths = map (\<lambda>((p, ct), u). snd ct) rows in
        case (sql_max depths, sql_avg depths) of
          (Some m, Some a) \<Rightarrow>
            if min_depth \<le> int m then
              Some \<lparr>td_post_id = pid,
                    td_post_preview = map_option (take 50) ptext,
                    td_total_comments = count_distinct (map (\<lambda>((p, ct), u). Some (comment_id (fst ct))) rows),
                    td_max_thread_depth = m,
                    td_avg_thread_depth = sql_round2 a,
                    td_unique_participants = count_distinct (map (\<lambda>((p, ct), u). Some (comment_user_id (fst ct))) rows),
                    td_participants = intercalate '', '' (sort (remdups (map (\<lambda>((p, ct), u). username u) rows)))\<rparr>
            else None
        | _ \<Rightarrow> None)"

text \<open>The rows of the outer query before ORDER BY.\<close>

definition thread_depth_rows :: "database \<Rightarrow> thread_row list \<Rightarrow> int \<Rightarrow> thread_depth_row list" where
  "thread_depth_rows db cts min_depth =
     List.map_filter (thread_depth_group min_depth)
       (group_by (\<lambda>((p, ct), u). (post_id p, post_text p)) (thread_join db cts))"

text \<open>
  \<open>GROUP_CONCAT(... SEPARATOR ', ')\<close> is MySQL's. PostgreSQL, the engine of the default
  configuration, has neither the aggregate nor the SEPARATOR clause: its parser rejects
  the statement, and \<open>session.execute\<close> raises before any row is read, whatever the
  snapshot. On MySQL the statement runs, and the method returns one of the results that
  the ORDER BY admits.
\<close>

definition analyze_thread_depth ::
  "db_engine \<Rightarrow> nat \<Rightarrow> database \<Rightarrow> int \<Rightarrow> sql_error + thread_depth_row list set" where
  "analyze_thread_depth eng cte_max_recursion_depth db min_depth =
     (case eng of
        PostgreSQL \<Rightarrow> Inl SyntaxError
      | MySQL \<Rightarrow>
          (case comment_threads cte_max_recursion_depth (comments db) of
             Inl e \<Rightarrow> Inl e
           | Inr cts \<Rightarrow>
               Inr (ordered_by (\<lambda>r. (- int (td_max_thread_depth r), - int (td_total_comments r)))
                      (thread_depth_rows db cts min_depth))))"

subsection \<open>identify_controversial_posts\<close>

text \<open>
  \<^verbatim>\<open>comment_stats: SELECT post_id, COUNT(*), AVG(LENGTH(comment_text)),
                        STDDEV(LENGTH(comment_text)), COUNT(DISTINCT user_id)
                 FROM comments GROUP BY post_id HAVING COUNT(*) >= :min_comments
  reply_depth:   SELECT c1.post_id, COUNT(c2.comment_id), AVG(LENGTH(c2.comment_text))
                 FROM comments c1 JOIN comments c2 ON c1.comment_id = c2.parent_comment_id
                 GROUP BY c1.post_id
  SELECT ..., COALESCE(rd.reply_count, 0), COALESCE(rd.avg_reply_length, 0),
         (cs.stddev_comment_length * cs.total_comments) AS controversy_score
  FROM posts p JOIN comment_stats cs ON p.post_id = cs.post_id
               LEFT JOIN reply_depth rd ON p.post_id = rd.post_id
               JOIN users u ON p.user_id = u.user_id
  WHERE cs.stddev_comment_length >= :min_stddev
  ORDER BY controversy_score DESC\<close>
\<close>

record comment_stats_row =
  cs_post_id :: int
  cs_total_comments :: nat
  cs_avg_comment_length :: "real option"
  cs_stddev_comment_length :: "real option"
  cs_unique_commenters :: nat

definition comment_stats :: "db_engine \<Rightarrow> database \<Rightarrow> int \<Rightarrow> comment_stats_row list" where
  "comment_stats eng db min_comments =
     filter (\<lambda>r. min_comments \<le> int (cs_total_comments r))
       (map (\<lambda>(pid, rows).
               \<lparr>cs_post_id = pid,
                cs_total_comments = length rows,
                cs_avg_comment_length = sql_avg_real (map (\<lambda>c. length (comment_text c)) rows),
                cs_stddev_comment_length = STDDEV eng (map (\<lambda>c. length (comment_text c)) rows),
                cs_unique_commenters = count_distinct (map (\<lambda>c. Some (comment_user_id c)) rows)\<rparr>)
          (group_by comment_post_id (comments db)))"

record reply_depth_row =
  rd_post_id :: int
  rd_reply_count :: nat
  rd_avg_reply_length :: "real option"

definition reply_depth :: "database \<Rightarrow> reply_depth_row list" where
  "reply_depth db =
     map (\<lambda>(pid, rows).
            \<lparr>rd_post_id = pid,
             rd_reply_count = length rows,
             rd_avg_reply_length = sql_avg_real (map (\<lambda>(c1, c2). length (comment_text c2)) rows)\<rparr>)
       (group_by (\<lambda>(c1, c2). comment_post_id c1)
          (inner_join (comments db) (comments db)
             (\<lambda>c1 c2. Some (comment_id c1) = parent_comment_id c2)))"

record controversial_post =
  cp_post_id :: int
  cp_post_text :: "string option"
  cp_post_time :: "timestamp option"
  cp_author :: string
  cp_total_comments :: nat
  cp_unique_commenters :: nat
  cp_avg_comment_length :: "real option"
  cp_stddev_comment_length :: "real option"
  cp_reply_count :: nat
  cp_avg_reply_length :: real
  cp_controversy_score :: "real option"

definition COALESCE :: "'a option \<Rightarrow> 'a \<Rightarrow> 'a" where
  "COALESCE v d = (case v of None \<Rightarrow> d | Some x \<Rightarrow> x)"

text \<open>
  The WHERE clause keeps a row when the deviation is not NULL and reaches
  \<open>min_stddev\<close>, so the score of a row that is kept is never NULL and the descending
  order needs no place for NULL.
\<close>

definition identify_controversial_posts ::
  "db_engine \<Rightarrow> database \<Rightarrow> int \<Rightarrow> real \<Rightarrow> controversial_post list" where
  "identify_controversial_posts eng db min_comments min_stddev =
     order_by (\<lambda>r. - COALESCE (cp_controversy_score r) 0)
       (map (\<lambda>(((p, cs), rd), u).
               \<lparr>cp_post_id = post_id p,
                cp_post_text = post_text p,
                cp_post_time = post_time p,
                cp_author = username u,
                cp_total_comments = cs_total_comments cs,
                cp_unique_commenters = cs_unique_commenters cs,
                cp_avg_comment_length = cs_avg_comment_length cs,
                cp_stddev_comment_length = cs_stddev_comment_length cs,
                cp_reply_count = COALESCE (map_option rd_reply_count rd) 0,
                cp_avg_reply_length = COALESCE (Option.bind rd rd_avg_reply_length) 0,
                cp_controversy_score =
                  map_option (\<lambda>sd. sd * real (cs_total_comments cs)) (cs_stddev_comment_length cs)\<rparr>)
          (filter (\<lambda>(((p, cs), rd), u).
                     case cs_stddev_comment_length cs of None \<Rightarrow> False | Some sd \<Rightarrow> min_stddev \<le> sd)
             (inner_join
                (left_join
                   (inner_join (posts db) (comment_stats eng db min_comments)
                      (\<lambda>p cs. post_id p = cs_post_id cs))
                   (reply_depth db) (\<lambda>(p, cs) rd. post_id p = rd_post_id rd))
                (users db) (\<lambda>((p, cs), rd) u. post_user_id p = user_id u))))"

subsection \<open>get_top_contributors\<close>

text \<open>
  \<^verbatim>\<open>FROM users u
    LEFT JOIN posts p ON u.user_id = p.user_id AND p.post_time >= NOW() - INTERVAL ':days DAYS'
    LEFT JOIN comments c ON u.user_id = c.user_id AND c.comment_time >= NOW() - INTERVAL ':days DAYS'
    LEFT JOIN likes l ON u.user_id = l.user_id AND l.like_time >= NOW() - INTERVAL ':days DAYS'
    LEFT JOIN follows f ON u.user_id = f.follower_id AND f.follow_time >= NOW() - INTERVAL ':days DAYS'
    LEFT JOIN follows f2 ON u.user_id = f2.followee_id AND f2.follow_time >= NOW() - INTERVAL ':days DAYS'
  GROUP BY u.user_id, u.username
  ... ORDER BY activity_score DESC LIMIT :limit\<close>

  The statement is built with \<open>text()\<close>, which takes \<open>:days\<close> for a bind parameter
  inside the quotes as well, and the default driver writes the bound value into the
  statement: the interval is \<open>days\<close> days, a day being 86400 seconds. \<open>now\<close> is the
  engine's NOW(). A negative \<open>limit\<close> is an error of the engine; \<open>limit\<close> is a
  natural number here.
\<close>

definition in_window :: "timestamp \<Rightarrow> int \<Rightarrow> timestamp option \<Rightarrow> bool" where
  "in_window now days t = ts_ge t (now - days * 86400)"

type_synonym activity_join_row =
  "((((user \<times> post option) \<times> comment option) \<times> like option) \<times> follow option) \<times> follow option"

definition user_activity_join :: "database \<Rightarrow> timestamp \<Rightarrow> int \<Rightarrow> activity_join_row list" where
  "user_activity_join db now days =
     left_join
       (left_join
          (left_join
             (left_join
                (left_join (users db) (posts db)
                   (\<lambda>u p. user_id u = post_user_id p \<and> in_window now days (post_time p)))
                (comments db)
                (\<lambda>(u, p) c. user_id u = comment_user_id c \<and> in_window now days (comment_time c)))
             (likes db)
             (\<lambda>((u, p), c) l. user_id u = like_user_id l \<and> in_window now days (like_time l)))
          (follows db)
          (\<lambda>(((u, p), c), l) f. user_id u = follower_id f \<and> in_window now days (follow_time f)))
       (follows db)
       (\<lambda>((((u, p), c), l), f) f2. user_id u = followee_id f2 \<and> in_window now days (follow_time f2))"

record user_activity =
  ua_user_id :: int
  ua_username :: string
  ua_post_count :: nat
  ua_comment_count :: nat
  ua_like_count :: nat
  ua_new_following :: nat
  ua_new_followers :: nat

record contributor = user_activity +
  activity_score :: nat

definition user_activity_rows :: "database \<Rightarrow> timestamp \<Rightarrow> int \<Rightarrow> user_activity list" where
  "user_activity_rows db now days =
     map (\<lambda>((uid, uname), rows).
            \<lparr>ua_user_id = uid,
             ua_username = uname,
             ua_post_count = count_distinct (map (\<lambda>(((((u, p), c), l), f), f2). map_option post_id p) rows),
             ua_comment_count = count_distinct (map (\<lambda>(((((u, p), c), l), f), f2). map_option comment_id c) rows),
             ua_like_count = count_distinct (map (\<lambda>(((((u, p), c), l), f), f2). map_option like_id l) rows),
             ua_new_following =
               count_distinct (map (\<lambda>(((((u, p), c), l), f), f2).
                  Option.bind f (\<lambda>x. if in_window now days (follow_time x) then Some (followee_id x) else None)) rows),
             ua_new_followers =
               count_distinct (map (\<lambda>(((((u, p), c), l), f), f2).
                  Option.bind f2 (\<lambda>x. if in_window now days (follow_time x) then Some (follower_id x) else None)) rows)\<rparr>)
       (group_by (\<lambda>(((((u, p), c), l), f), f2). (user_id u, username u)) (user_activity_join db now days))"

definition score_row :: "user_activity \<Rightarrow> contributor" where
  "score_row a =
     user_activity.extend a
       (contributor.fields
          (ua_post_count a * 3 + ua_comment_count a * 2 + ua_like_count a * 1 + ua_new_followers a * 5))"

definition get_top_contributors :: "database \<Rightarrow> timestamp \<Rightarrow> int \<Rightarrow> nat \<Rightarrow> contributor list" where
  "get_top_contributors db now days limit =
     take limit
       (order_by (\<lambda>r. - int (activity_score r)) (map score_row (user_activity_rows db now days)))"


section \<open>EngagementAnalyzer (src/analytics/engagement.py)\<close>

subsection \<open>get_post_engagement\<close>

type_synonym post_stats_join_row =
  "(((post \<times> like option) \<times> comment option) \<times> user) \<times> follow option"

text \<open>
  \<^verbatim>\<open>post_stats: SELECT p.post_id, p.user_id, u.username, p.post_text, p.post_time,
                     COUNT(DISTINCT l.user_id), COUNT(DISTINCT c.comment_id),
                     COUNT(DISTINCT f.follower_id)
              FROM posts p LEFT JOIN likes l ON p.post_id = l.post_id
                           LEFT JOIN comments c ON p.post_id = c.post_id
                           JOIN users u ON p.user_id = u.user_id
                           LEFT JOIN follows f ON p.user_id = f.followee_id
              WHERE p.post_time >= :start_date
              GROUP BY p.post_id, p.user_id, u.username, p.post_text, p.post_time
  SELECT ..., ROUND((like_count + comment_count) * 100.0 / NULLIF(follower_count, 0), 2),
         RANK() OVER (ORDER BY (like_count + comment_count) DESC)
  FROM post_stats ORDER BY engagement_rate DESC\<close>

  \<open>start_date = datetime.utcnow() - timedelta(days=days)\<close>, \<open>now\<close> being
  \<open>utcnow()\<close>.
\<close>

definition start_date :: "timestamp \<Rightarrow> int \<Rightarrow> timestamp" where
  "start_date now days = now - days * 86400"

definition post_stats_join :: "database \<Rightarrow> timestamp \<Rightarrow> post_stats_join_row list" where
  "post_stats_join db start =
     filter (\<lambda>((((p, l), c), u), f). ts_ge (post_time p) start)
       (left_join
          (inner_join
             (left_join
                (left_join (posts db) (likes db) (\<lambda>p l. Some (post_id p) = like_post_id l))
                (comments db) (\<lambda>(p, l) c. post_id p = comment_post_id c))
             (users db) (\<lambda>((p, l), c) u. post_user_id p = user_id u))
          (follows db) (\<lambda>(((p, l), c), u) f. post_user_id p = followee_id f))"

record post_stats =
  pe_post_id :: int
  pe_author_id :: int
  pe_author_name :: string
  pe_post_text :: "string option"
  pe_post_time :: "timestamp option"
  pe_like_count :: nat
  pe_comment_count :: nat
  pe_follower_count :: nat

record post_engagement = post_stats +
  engagement_rate :: "rat option"
  engagement_rank :: nat

definition post_stats_rows :: "database \<Rightarrow> timestamp \<Rightarrow> post_stats list" where
  "post_stats_rows db start =
     map (\<lambda>((pid, aid, aname, ptext, ptime), rows).
            \<lparr>pe_post_id = pid, pe_author_id = aid, pe_author_name = aname,
             pe_post_text = ptext, pe_post_time = ptime,
             pe_like_count = count_distinct (map (\<lambda>((((p, l), c), u), f). map_option like_user_id l) rows),
             pe_comment_count = count_distinct (map (\<lambda>((((p, l), c), u), f). map_option comment_id c) rows),
             pe_follower_count = count_distinct (map (\<lambda>((((p, l), c), u), f). map_option follower_id f) rows)\<rparr>)
       (group_by (\<lambda>((((p, l), c), u), f). (post_id p, post_user_id p, username u, post_text p, post_time p))
          (post_stats_join db start))"

text \<open>RANK() OVER (ORDER BY e DESC): one more than the number of rows with a greater \<open>e\<close>.\<close>

definition RANK_desc :: "('r \<Rightarrow> nat) \<Rightarrow> 'r list \<Rightarrow> 'r \<Rightarrow> nat" where
  "RANK_desc e rows r = 1 + length (filter (\<lambda>r'. e r < e r') rows)"

definition engagement_row :: "post_stats list \<Rightarrow> post_stats \<Rightarrow> post_engagement" where
  "engagement_row rows r =
     post_stats.extend r
       (post_engagement.fields
          (percent_of (pe_like_count r + pe_comment_count r) (pe_follower_count r))
          (RANK_desc (\<lambda>x. pe_like_count x + pe_comment_count x) rows r))"

text \<open>
  ORDER BY engagement_rate DESC: PostgreSQL puts NULL first in a descending order,
  MySQL last.
\<close>

definition rate_desc_key :: "db_engine \<Rightarrow> rat option \<Rightarrow> nat \<times> rat" where
  "rate_desc_key eng v =
     (case v of
        None \<Rightarrow> (case eng of PostgreSQL \<Rightarrow> (0, 0) | MySQL \<Rightarrow> (2, 0))
      | Some x \<Rightarrow> (1, - x))"

definition get_post_engagement ::
  "db_engine \<Rightarrow> database \<Rightarrow> timestamp \<Rightarrow> int \<Rightarrow> post_engagement list" where
  "get_post_engagement eng db now days =
     (let rows = post_stats_rows db (start_date now days)
      in order_by (\<lambda>r. rate_desc_key eng (engagement_rate r)) (map (engagement_row rows) rows))"

subsection \<open>get_user_engagement_summary\<close>

text \<open>
  \<^verbatim>\<open>SELECT u.user_id, u.username, COUNT(DISTINCT p.post_id), COUNT(DISTINCT l.like_id),
         COUNT(DISTINCT c.comment_id), COUNT(DISTINCT f.follower_id),
         COUNT(DISTINCT fl.followee_id), ROUND(... / NULLIF(..., 0), 2), ...
  FROM users u LEFT JOIN posts p ON u.user_id = p.user_id
               LEFT JOIN likes l ON p.post_id = l.post_id
               LEFT JOIN comments c ON p.post_id = c.post_id
               LEFT JOIN follows f ON u.user_id = f.followee_id
               LEFT JOIN follows fl ON u.user_id = fl.follower_id
  GROUP BY u.user_id, u.username ORDER BY likes_received DESC\<close>
\<close>

type_synonym summary_join_row =
  "((((user \<times> post option) \<times> like option) \<times> comment option) \<times> follow option) \<times> follow option"

definition summary_join :: "database \<Rightarrow> summary_join_row list" where
  "summary_join db =
     left_join
       (left_join
          (left_join
             (left_join
                (left_join (users db) (posts db) (\<lambda>u p. user_id u = post_user_id p))
                (likes db)
                (\<lambda>(u, p) l. case p of None \<Rightarrow> False | Some p' \<Rightarrow> Some (post_id p') = like_post_id l))
             (comments db)
             (\<lambda>((u, p), l) c. case p of None \<Rightarrow> False | Some p' \<Rightarrow> post_id p' = comment_post_id c))
          (follows db) (\<lambda>(((u, p), l), c) f. user_id u = followee_id f))
       (follows db) (\<lambda>((((u, p), l), c), f) fl. user_id u = follower_id fl)"

record user_engagement =
  ue_user_id :: int
  ue_username :: string
  ue_post_count :: nat
  ue_likes_received :: nat
  ue_comments_received :: nat
  ue_follower_count :: nat
  ue_following_count :: nat
  ue_avg_like_rate :: "rat option"
  ue_avg_comment_rate :: "rat option"

definition summary_group :: "(int \<times> string) \<times> summary_join_row list \<Rightarrow> user_engagement" where
  "summary_group g =
     (case g of ((uid, uname), rows) \<Rightarrow>
        let likes_received = count_distinct (map (\<lambda>(((((u, p), l), c), f), fl). map_option like_id l) rows);
            comments_received = count_distinct (map (\<lambda>(((((u, p), l), c), f), fl). map_option comment_id c) rows);
            follower_count = count_distinct (map (\<lambda>(((((u, p), l), c), f), fl). map_option follower_id f) rows)
        in \<lparr>ue_user_id = uid, ue_username = uname,
            ue_post_count = count_distinct (map (\<lambda>(((((u, p), l), c), f), fl). map_option post_id p) rows),
            ue_likes_received = likes_received,
            ue_comments_received = comments_received,
            ue_follower_count = follower_count,
            ue_following_count = count_distinct (map (\<lambda>(((((u, p), l), c), f), fl). map_option followee_id fl) rows),
            ue_avg_like_rate = percent_of likes_received follower_count,
            ue_avg_comment_rate = percent_of comments_received follower_count\<rparr>)"

definition get_user_engagement_summary :: "database \<Rightarrow> user_engagement list" where
  "get_user_engagement_summary db =
     order_by (\<lambda>r. - int (ue_likes_received r))
       (map summary_group
          (group_by (\<lambda>(((((u, p), l), c), f), fl). (user_id u, username u)) (summary_join db)))"

section \<open>NetworkAnalyzer (src/analytics/network.py)\<close>

datatype py_error = AttributeError | KeyError | ZeroDivisionError

record network_row =
  follower_username :: string
  followee_username :: string
  nr_follow_time :: "timestamp option"

definition get_follower_network :: "database \<Rightarrow> network_row list" where
  "get_follower_network db =
     map (\<lambda>((f, u1), u2). \<lparr>follower_username = username u1,
                             followee_username = username u2,
                             nr_follow_time = follow_time f\<rparr>)
       (inner_join
          (inner_join (follows db) (users db) (\<lambda>f u1. follower_id f = user_id u1))
          (users db) (\<lambda>(f, u1) u2. followee_id f = user_id u2))"

record density_report =
  density :: rat
  num_users :: int
  num_edges :: int

text \<open>
  The density block of \<open>analyze_and_visualize_network\<close>:

  \<^verbatim>\<open>num_users = (columns follower_username, followee_username of network_data).stack().nunique()
  num_edges = len(network_data)
  max_possible_edges = num_users * (num_users - 1)
  density = num_edges / max_possible_edges\<close>

  The frame is built from the list of row dictionaries, so a frame of no rows has no
  columns and selecting the two username columns raises KeyError; Python's \<open>/\<close> on
  a zero divisor raises ZeroDivisionError. The quotient is kept exact, where Python
  gives the float next to it.
\<close>

definition network_density :: "network_row list \<Rightarrow> py_error + density_report" where
  "network_density network_data =
     (if network_data = [] then Inl KeyError
      else
        let num_users = int (length (remdups (concat (map (\<lambda>r. [follower_username r, followee_username r]) network_data))));
            num_edges = int (length network_data);
            max_possible_edges = num_users * (num_users - 1)
        in if max_possible_edges = 0 then Inl ZeroDivisionError
           else Inr \<lparr>density = of_int num_edges / of_int max_possible_edges,
                     num_users = num_users, num_edges = num_edges\<rparr>)"

text \<open>
  The method \<open>analyze_and_visualize_network\<close>. Its first statement is

  \<^verbatim>\<open>ghost_followers = self.identify_ghost_followers()\<close>

  and the class defines \<open>__init__\<close>, \<open>get_follower_network\<close> and
  \<open>analyze_and_visualize_network\<close> and sets the attributes \<open>session\<close> and
  \<open>visualizer\<close>; it has no base class, and nothing in the repository defines
  \<open>identify_ghost_followers\<close>. Looking up a name that the object does not have
  raises AttributeError. The plot and the printing between the statements of the method
  are left out.
\<close>

definition NetworkAnalyzer_attributes :: "string list" where
  "NetworkAnalyzer_attributes =
     [''session'', ''visualizer'', ''__init__'', ''get_follower_network'',
      ''analyze_and_visualize_network'']"

definition getattr :: "string list \<Rightarrow> string \<Rightarrow> py_error + unit" where
  "getattr attributes name = (if name \<in> set attributes then Inr () else Inl AttributeError)"

definition analyze_and_visualize_network :: "database \<Rightarrow> py_error + density_report" where
  "analyze_and_visualize_network db =
     (case getattr NetworkAnalyzer_attributes ''identify_ghost_followers'' of
        Inl e \<Rightarrow> Inl e
      | Inr ghost_followers \<Rightarrow>
          (case getattr NetworkAnalyzer_attributes ''get_follower_network'' of
             Inl e \<Rightarrow> Inl e
           | Inr network_data \<Rightarrow> network_density (get_follower_network db)))"

section \<open>Notions the properties are stated with\<close>

subsection \<open>The follow graph\<close>

definition follow_nodes :: "database \<Rightarrow> int set" where
  "follow_nodes db = follower_id ` set (follows db) \<union> followee_id ` set (follows db)"

definition follow_edges :: "database \<Rightarrow> (int \<times> int) set" where
  "follow_edges db = (\<lambda>f. (follower_id f, followee_id f)) ` set (follows db)"

text \<open>The username of the user with a given id.\<close>

definition uname :: "database \<Rightarrow> int \<Rightarrow> string" where
  "uname db k = username (the (find (\<lambda>u. user_id u = k) (users db)))"

subsection \<open>What a user's posts received\<close>

definition post_likes_of :: "database \<Rightarrow> int \<Rightarrow> like set" where
  "post_likes_of db uid =
     {l \<in> set (likes db). \<exists>p\<in>set (posts db). post_user_id p = uid \<and> like_post_id l = Some (post_id p)}"

definition post_comments_of :: "database \<Rightarrow> int \<Rightarrow> comment set" where
  "post_comments_of db uid =
     {c \<in> set (comments db). \<exists>p\<in>set (posts db). post_user_id p = uid \<and> comment_post_id c = post_id p}"

subsection \<open>What a post received\<close>

definition post_likers :: "database \<Rightarrow> int \<Rightarrow> int set" where
  "post_likers db pid = like_user_id ` {l \<in> set (likes db). like_post_id l = Some pid}"

definition post_comment_ids :: "database \<Rightarrow> int \<Rightarrow> int set" where
  "post_comment_ids db pid = comment_id ` {c \<in> set (comments db). comment_post_id c = pid}"

definition followers_of :: "database \<Rightarrow> int \<Rightarrow> int set" where
  "followers_of db uid = follower_id ` {f \<in> set (follows db). followee_id f = uid}"

text \<open>The combined count of a row: distinct likers plus comments.\<close>

definition combined :: "'a post_stats_scheme \<Rightarrow> nat" where
  "combined r = pe_like_count r + pe_comment_count r"

text \<open>
  The dense rank in descending order: one more than the number of different greater
  values.
\<close>

definition dense_rank_desc :: "('r \<Rightarrow> nat) \<Rightarrow> 'r list \<Rightarrow> 'r \<Rightarrow> nat" where
  "dense_rank_desc e rows r = 1 + length (remdups (map e (filter (\<lambda>r'. e r < e r') rows)))"

subsection \<open>Rows of an outer join\<close>

text \<open>
  The right-hand part of a row of a LEFT JOIN: a matching row when there is one, NULL
  when there is none.
\<close>

definition opt_match :: "'b set \<Rightarrow> ('b \<Rightarrow> bool) \<Rightarrow> 'b option \<Rightarrow> bool" where
  "opt_match S P ob = (case ob of None \<Rightarrow> (\<forall>b\<in>S. \<not> P b) | Some b \<Rightarrow> b \<in> S \<and> P b)"

subsection \<open>A user's events inside the lookback window\<close>

definition windowed_posts :: "database \<Rightarrow> timestamp \<Rightarrow> int \<Rightarrow> int \<Rightarrow> post set" where
  "windowed_posts db now days uid =
     {p \<in> set (posts db). post_user_id p = uid \<and> in_window now days (post_time p)}"

definition windowed_comments :: "database \<Rightarrow> timestamp \<Rightarrow> int \<Rightarrow> int \<Rightarrow> comment set" where
  "windowed_comments db now days uid =
     {c \<in> set (comments db). comment_user_id c = uid \<and> in_window now days (comment_time c)}"

definition windowed_likes :: "database \<Rightarrow> timestamp \<Rightarrow> int \<Rightarrow> int \<Rightarrow> like set" where
  "windowed_likes db now days uid =
     {l \<in> set (likes db). like_user_id l = uid \<and> in_window now days (like_time l)}"

definition windowed_following :: "database \<Rightarrow> timestamp \<Rightarrow> int \<Rightarrow> int \<Rightarrow> follow set" where
  "windowed_following db now days uid =
     {f \<in> set (follows db). follower_id f = uid \<and> in_window now days (follow_time f)}"

definition windowed_followers :: "database \<Rightarrow> timestamp \<Rightarrow> int \<Rightarrow> int \<Rightarrow> follow set" where
  "windowed_followers db now days uid =
     {f \<in> set (follows db). followee_id f = uid \<and> in_window now days (follow_time f)}"

subsection \<open>Dispersion of comment lengths\<close>

text \<open>The lengths of the texts of the comments of a post.\<close>

definition post_comment_lengths :: "database \<Rightarrow> int \<Rightarrow> nat list" where
  "post_comment_lengths db pid =
     map (\<lambda>c. length (comment_text c)) (filter (\<lambda>c. comment_post_id c = pid) (comments db))"

text \<open>
  The sum of the squared deviations from the mean; the sample standard deviation, which
  divides it by \<open>N - 1\<close> and is taken as 0 for a single value; the population
  standard deviation, which divides it by \<open>N\<close>.
\<close>

definition sum_sq_dev :: "nat list \<Rightarrow> real" where
  "sum_sq_dev xs =
     (let m = real (sum_list xs) / real (length xs) in sum_list (map (\<lambda>x. (real x - m)\<^sup>2) xs))"

definition sample_stddev :: "nat list \<Rightarrow> real" where
  "sample_stddev xs = (if length xs = 1 then 0 else sqrt (sum_sq_dev xs / (real (length xs) - 1)))"

definition population_stddev :: "nat list \<Rightarrow> real" where
  "population_stddev xs = sqrt (sum_sq_dev xs / real (length xs))"

subsection \<open>Comment threads\<close>

text \<open>
  The parent links of the comments, as pairs of the comment's id and its parent's id,
  and the foreign key on the parent reference.
\<close>

definition parent_links :: "database \<Rightarrow> (int \<times> int) set" where
  "parent_links db =
     {(comment_id c, pid) | c pid. c \<in> set (comments db) \<and> parent_comment_id c = Some pid}"

definition fk_comment_parent :: "database \<Rightarrow> bool" where
  "fk_comment_parent db =
     list_all (\<lambda>c. case parent_comment_id c of None \<Rightarrow> True
                    | Some pid \<Rightarrow> pid \<in> set (map comment_id (comments db))) (comments db)"

text \<open>
  A comment is at level \<open>k\<close> when \<open>k\<close> parent links lead from it to a top-level
  comment.
\<close>

fun at_level :: "comment list \<Rightarrow> nat \<Rightarrow> comment \<Rightarrow> bool" where
  "at_level cs 0 c = (parent_comment_id c = None)"
| "at_level cs (Suc k) c =
     (\<exists>p\<in>set cs. parent_comment_id c = Some (comment_id p) \<and> at_level cs k p)"

text \<open>The rows that round \<open>k\<close> of the recursive query yields; the rows of all rounds.\<close>

fun cte_round :: "comment list \<Rightarrow> nat \<Rightarrow> thread_row list" where
  "cte_round cs 0 = cte_base cs"
| "cte_round cs (Suc k) = cte_step cs (cte_round cs k)"

definition thread_rows :: "comment list \<Rightarrow> thread_row set" where
  "thread_rows cs = {(c, Suc k) | c k. c \<in> set cs \<and> at_level cs k c}"

text \<open>The depths of the comments of a post: one more than the level of each.\<close>

definition post_depths :: "database \<Rightarrow> int \<Rightarrow> nat set" where
  "post_depths db pid =
     {Suc k | k c. c \<in> set (comments db) \<and> comment_post_id c = pid \<and> at_level (comments db) k c}"

subsection \<open>The users and their activity\<close>



subsection \<open>Results and bounds of the thread query\<close>

text \<open>
  No comment lies deeper than \<open>cap\<close>: the recursive expression needs no more
  rounds than the bound allows.
\<close>

definition threads_within :: "nat \<Rightarrow> database \<Rightarrow> bool" where
  "threads_within cap db = (\<forall>pid. \<forall>d\<in>post_depths db pid. d \<le> cap)"

section \<open>Example snapshots\<close>

definition empty_db :: database where
  "empty_db = \<lparr>users = [], posts = [], comments = [], likes = [], follows = []\<rparr>"

text \<open>Four users and six follow edges.\<close>

definition net_db :: database where
  "net_db = \<lparr>users = [\<lparr>user_id = 1, username = ''alice''\<rparr>, \<lparr>user_id = 2, username = ''bob''\<rparr>,
                      \<lparr>user_id = 3, username = ''carol''\<rparr>, \<lparr>user_id = 4, username = ''dave''\<rparr>],
             posts = [], comments = [], likes = [],
             follows = [\<lparr>follower_id = 2, followee_id = 1, follow_time = Some 0\<rparr>,
                        \<lparr>follower_id = 3, followee_id = 1, follow_time = Some 0\<rparr>,
                        \<lparr>follower_id = 4, followee_id = 1, follow_time = Some 0\<rparr>,
                        \<lparr>follower_id = 1, followee_id = 2, follow_time = Some 0\<rparr>,
                        \<lparr>follower_id = 3, followee_id = 2, follow_time = Some 0\<rparr>,
                        \<lparr>follower_id = 1, followee_id = 3, follow_time = Some 0\<rparr>]\<rparr>"

text \<open>
  One post of alice, with one comment by bob, one like by bob on the post and one like
  by bob on the comment.
\<close>

definition like_db :: database where
  "like_db = \<lparr>users = [\<lparr>user_id = 1, username = ''alice''\<rparr>, \<lparr>user_id = 2, username = ''bob''\<rparr>],
              posts = [\<lparr>post_id = 10, post_user_id = 1, post_text = Some ''hello'', post_time = Some 0\<rparr>],
              comments = [\<lparr>comment_id = 100, comment_post_id = 10, comment_user_id = 2,
                            parent_comment_id = None, comment_text = ''hi'', comment_time = Some 5\<rparr>],
              likes = [\<lparr>like_id = 1000, like_post_id = Some 10, like_comment_id = None,
                         like_user_id = 2, like_time = Some 6\<rparr>,
                       \<lparr>like_id = 1001, like_post_id = None, like_comment_id = Some 100,
                         like_user_id = 2, like_time = Some 7\<rparr>],
              follows = [\<lparr>follower_id = 2, followee_id = 1, follow_time = Some 1\<rparr>]\<rparr>"

text \<open>
  A post of alice, who has three followers, with one like; a post of bob, who has no
  follower.
\<close>

definition rate_db :: database where
  "rate_db = \<lparr>users = [\<lparr>user_id = 1, username = ''alice''\<rparr>, \<lparr>user_id = 2, username = ''bob''\<rparr>,
                       \<lparr>user_id = 3, username = ''carol''\<rparr>, \<lparr>user_id = 4, username = ''dave''\<rparr>],
              posts = [\<lparr>post_id = 10, post_user_id = 1, post_text = Some ''hello'', post_time = Some 0\<rparr>,
                       \<lparr>post_id = 11, post_user_id = 2, post_text = Some ''world'', post_time = Some 0\<rparr>],
              comments = [],
              likes = [\<lparr>like_id = 1000, like_post_id = Some 10, like_comment_id = None,
                         like_user_id = 2, like_time = Some 6\<rparr>],
              follows = [\<lparr>follower_id = 2, followee_id = 1, follow_time = Some 1\<rparr>,
                         \<lparr>follower_id = 3, followee_id = 1, follow_time = Some 1\<rparr>,
                         \<lparr>follower_id = 4, followee_id = 1, follow_time = Some 1\<rparr>]\<rparr>"

text \<open>Three posts with two, two and one likes.\<close>

definition rank_db :: database where
  "rank_db = \<lparr>users = [\<lparr>user_id = 1, username = ''alice''\<rparr>, \<lparr>user_id = 2, username = ''bob''\<rparr>,
                       \<lparr>user_id = 3, username = ''carol''\<rparr>],
              posts = [\<lparr>post_id = 10, post_user_id = 1, post_text = Some ''a'', post_time = Some 0\<rparr>,
                       \<lparr>post_id = 11, post_user_id = 1, post_text = Some ''b'', post_time = Some 0\<rparr>,
                       \<lparr>post_id = 12, post_user_id = 1, post_text = Some ''c'', post_time = Some 0\<rparr>],
              comments = [],
              likes = [\<lparr>like_id = 1000, like_post_id = Some 10, like_comment_id = None, like_user_id = 2, like_time = Some 6\<rparr>,
                       \<lparr>like_id = 1001, like_post_id = Some 10, like_comment_id = None, like_user_id = 3, like_time = Some 6\<rparr>,
                       \<lparr>like_id = 1002, like_post_id = Some 11, like_comment_id = None, like_user_id = 2, like_time = Some 6\<rparr>,
                       \<lparr>like_id = 1003, like_post_id = Some 11, like_comment_id = None, like_user_id = 3, like_time = Some 6\<rparr>,
                       \<lparr>like_id = 1004, like_post_id = Some 12, like_comment_id = None, like_user_id = 2, like_time = Some 6\<rparr>],
              follows = []\<rparr>"

text \<open>
  Day 100 is second 8640000. Alice has a post and a like of day 99 and a post, a comment
  and a like of day 60; she follows bob since day 60 and bob follows her since day 99.
\<close>

definition window_db :: database where
  "window_db = \<lparr>users = [\<lparr>user_id = 1, username = ''alice''\<rparr>, \<lparr>user_id = 2, username = ''bob''\<rparr>],
                posts = [\<lparr>post_id = 10, post_user_id = 1, post_text = Some ''new'', post_time = Some 8553600\<rparr>,
                         \<lparr>post_id = 11, post_user_id = 1, post_text = Some ''old'', post_time = Some 5184000\<rparr>],
                comments = [\<lparr>comment_id = 100, comment_post_id = 10, comment_user_id = 1,
                              parent_comment_id = None, comment_text = ''old'', comment_time = Some 5184000\<rparr>],
                likes = [\<lparr>like_id = 1000, like_post_id = Some 10, like_comment_id = None,
                           like_user_id = 1, like_time = Some 8553600\<rparr>,
                         \<lparr>like_id = 1001, like_post_id = Some 11, like_comment_id = None,
                           like_user_id = 1, like_time = Some 5184000\<rparr>],
                follows = [\<lparr>follower_id = 1, followee_id = 2, follow_time = Some 5184000\<rparr>,
                           \<lparr>follower_id = 2, followee_id = 1, follow_time = Some 8553600\<rparr>]\<rparr>"


text \<open>
  One post with one comment of 5 characters; with two comments of 1 and 3 characters;
  with three comments of 1, 2 and 3 characters.
\<close>

definition sd_db1 :: database where
  "sd_db1 = \<lparr>users = [\<lparr>user_id = 1, username = ''alice''\<rparr>],
             posts = [\<lparr>post_id = 10, post_user_id = 1, post_text = Some ''p'', post_time = Some 0\<rparr>],
             comments = [\<lparr>comment_id = 100, comment_post_id = 10, comment_user_id = 1,
                           parent_comment_id = None, comment_text = ''hello'', comment_time = Some 1\<rparr>],
             likes = [], follows = []\<rparr>"

definition sd_db2 :: database where
  "sd_db2 = \<lparr>users = [\<lparr>user_id = 1, username = ''alice''\<rparr>],
             posts = [\<lparr>post_id = 10, post_user_id = 1, post_text = Some ''p'', post_time = Some 0\<rparr>],
             comments = [\<lparr>comment_id = 100, comment_post_id = 10, comment_user_id = 1,
                           parent_comment_id = None, comment_text = ''a'', comment_time = Some 1\<rparr>,
                         \<lparr>comment_id = 101, comment_post_id = 10, comment_user_id = 1,
                           parent_comment_id = None, comment_text = ''abc'', comment_time = Some 2\<rparr>],
             likes = [], follows = []\<rparr>"

definition sd_db3 :: database where
  "sd_db3 = \<lparr>users = [\<lparr>user_id = 1, username = ''alice''\<rparr>],
             posts = [\<lparr>post_id = 10, post_user_id = 1, post_text = Some ''p'', post_time = Some 0\<rparr>],
             comments = [\<lparr>comment_id = 100, comment_post_id = 10, comment_user_id = 1,
                           parent_comment_id = None, comment_text = ''a'', comment_time = Some 1\<rparr>,
                         \<lparr>comment_id = 101, comment_post_id = 10, comment_user_id = 1,
                           parent_comment_id = None, comment_text = ''ab'', comment_time = Some 2\<rparr>,
                         \<lparr>comment_id = 102, comment_post_id = 10, comment_user_id = 1,
                           parent_comment_id = Some 100, comment_text = ''abc'', comment_time = Some 3\<rparr>],
             likes = [], follows = []\<rparr>"

text \<open>
  Post 1 with a thread of three comments, each the reply to the one before; post 2 with
  one top-level comment.
\<close>

definition thread_db :: database where
  "thread_db = \<lparr>users = [\<lparr>user_id = 1, username = ''alice''\<rparr>, \<lparr>user_id = 2, username = ''bob''\<rparr>],
                posts = [\<lparr>post_id = 1, post_user_id = 1, post_text = Some ''first'', post_time = Some 0\<rparr>,
                         \<lparr>post_id = 2, post_user_id = 2, post_text = Some ''second'', post_time = Some 0\<rparr>],
                comments = [\<lparr>comment_id = 1, comment_post_id = 1, comment_user_id = 2,
                              parent_comment_id = None, comment_text = ''a'', comment_time = Some 1\<rparr>,
                            \<lparr>comment_id = 2, comment_post_id = 1, comment_user_id = 1,
                              parent_comment_id = Some 1, comment_text = ''b'', comment_time = Some 2\<rparr>,
                            \<lparr>comment_id = 3, comment_post_id = 1, comment_user_id = 2,
                              parent_comment_id = Some 2, comment_text = ''c'', comment_time = Some 3\<rparr>,
                            \<lparr>comment_id = 4, comment_post_id = 2, comment_user_id = 1,
                              parent_comment_id = None, comment_text = ''d'', comment_time = Some 4\<rparr>],
                likes = [], follows = []\<rparr>"



subsection \<open>Rows of the examples\<close>




section \<open>Properties\<close>

subsection \<open>Facts about the relational operators\<close>

lemma set_inner_join:
  "set (inner_join xs ys on) = {(a, b). a \<in> set xs \<and> b \<in> set ys \<and> on a b}"
  by (auto simp: inner_join_def)

lemma in_left_join:
  "(a, ob) \<in> set (left_join xs ys on) \<longleftrightarrow>
     a \<in> set xs \<and> (case ob of None \<Rightarrow> (\<forall>b\<in>set ys. \<not> on a b) | Some b \<Rightarrow> b \<in> set ys \<and> on a b)"
proof -
  have one: "set (case filter (on a') ys of [] \<Rightarrow> [(a', None)] | b # bs \<Rightarrow> map (\<lambda>b'. (a', Some b')) (b # bs))
        = (if (\<forall>b\<in>set ys. \<not> on a' b) then {(a', None)} else {(a', Some b) | b. b \<in> set ys \<and> on a' b})" for a'
  proof (cases "filter (on a') ys")
    case Nil
    then show ?thesis by (auto simp: filter_empty_conv)
  next
    case (Cons b bs)
    then have "b \<in> set (filter (on a') ys)" by simp
    then have ex: "\<not> (\<forall>b\<in>set ys. \<not> on a' b)" by auto
    have "set (map (\<lambda>b'. (a', Some b')) (b # bs)) = {(a', Some b) | b. b \<in> set ys \<and> on a' b}"
      unfolding Cons[symmetric] by auto
    with ex Cons show ?thesis by auto
  qed
  show ?thesis
    unfolding left_join_def set_concat set_map
    by (cases ob) (auto simp: one split: if_splits)
qed

lemma left_join_extend:
  assumes "a \<in> set xs"
  shows "\<exists>ob. (a, ob) \<in> set (left_join xs ys on)"
proof (cases "\<forall>b\<in>set ys. \<not> on a b")
  case True
  with assms have "(a, None) \<in> set (left_join xs ys on)" by (simp add: in_left_join)
  then show ?thesis ..
next
  case False
  then obtain b where "b \<in> set ys" "on a b" by auto
  with assms have "(a, Some b) \<in> set (left_join xs ys on)" by (simp add: in_left_join)
  then show ?thesis ..
qed

lemma left_join_fst: "(a, ob) \<in> set (left_join xs ys on) \<Longrightarrow> a \<in> set xs"
  by (simp add: in_left_join)

lemma count_distinct_card: "count_distinct vs = card {v. Some v \<in> set vs}"
proof -
  have "set (List.map_filter id vs) = {v. Some v \<in> set vs}"
    by (force simp: List.map_filter_def)
  then show ?thesis by (simp add: count_distinct_def length_remdups_card_conv)
qed

lemma in_group_by:
  "(k, rows) \<in> set (group_by key xs) \<longleftrightarrow> k \<in> key ` set xs \<and> rows = filter (\<lambda>r. key r = k) xs"
  by (auto simp: group_by_def)

lemma set_order_by: "set (order_by key rows) = set rows"
  by (simp add: order_by_def)

lemma left_join_filter_irrelevant:
  assumes "\<And>a b. on a b \<Longrightarrow> P b"
  shows "left_join xs (filter P ys) on = left_join xs ys on"
proof -
  have "filter (on a) (filter P ys) = filter (on a) ys" for a
    using assms by (auto intro: filter_cong)
  then show ?thesis by (simp add: left_join_def)
qed

lemma filter_key_unique:
  assumes "distinct (map key xs)" "x \<in> set xs"
  shows "filter (\<lambda>y. key x = key y) xs = [x]"
  using assms
proof (induction xs)
  case Nil then show ?case by simp
next
  case (Cons a xs)
  show ?case
  proof (cases "x = a")
    case True
    have "filter (\<lambda>y. key a = key y) xs = []"
      using Cons.prems(1) by (auto simp: filter_empty_conv)
    with True show ?thesis by simp
  next
    case False
    with Cons.prems have "x \<in> set xs" "key a \<noteq> key x" by auto
    with Cons show ?thesis by auto
  qed
qed

lemma find_key_unique:
  assumes "distinct (map key xs)" "x \<in> set xs"
  shows "find (\<lambda>y. key y = key x) xs = Some x"
  using assms
proof (induction xs)
  case Nil then show ?case by simp
next
  case (Cons a xs)
  then show ?case by (cases "x = a") auto
qed

lemma inner_join_lookup:
  assumes "distinct (map key ys)" "\<forall>a\<in>set xs. k a \<in> set (map key ys)"
  shows "inner_join xs ys (\<lambda>a b. k a = key b) =
         map (\<lambda>a. (a, the (find (\<lambda>b. key b = k a) ys))) xs"
proof -
  have one: "filter (\<lambda>b. k a = key b) ys = [the (find (\<lambda>b. key b = k a) ys)]" if "a \<in> set xs" for a
  proof -
    from that assms(2) obtain y where y: "y \<in> set ys" "key y = k a" by auto
    have f: "filter (\<lambda>b. key y = key b) ys = [y]" using filter_key_unique[OF assms(1) y(1)] .
    have "find (\<lambda>b. key b = key y) ys = Some y" using find_key_unique[OF assms(1) y(1)] .
    with f y show ?thesis by simp
  qed
  have "map (Pair a) (filter (\<lambda>b. k a = key b) ys) = [(a, the (find (\<lambda>b. key b = k a) ys))]"
    if "a \<in> set xs" for a using one[OF that] by simp
  then show ?thesis unfolding inner_join_def
    by (induction xs) auto
qed

lemma count_distinct_eqI:
  assumes "\<And>v. (\<exists>row\<in>set rows. proj row = Some v) \<longleftrightarrow> v \<in> B"
  shows "count_distinct (map proj rows) = card B"
proof -
  have "{v. Some v \<in> set (map proj rows)} = B"
    using assms by (auto simp: image_iff) (metis)+
  then show ?thesis by (simp add: count_distinct_card)
qed

lemma order_by_desc_sorted:
  "sorted_wrt (\<lambda>a b. key a \<le> key b) (order_by key xs)"
  using sorted_sort_key[of key xs] by (simp add: order_by_def sorted_map)


lemma mset_take_drop: "mset S - mset (take n S) = mset (drop n S)"
proof -
  have "mset S = mset (take n S) + mset (drop n S)"
    by (metis append_take_drop_id mset_append)
  then show ?thesis by simp
qed

lemma length_filter_order_by:
  "length (filter P (order_by key xs)) = length (filter P xs)"
proof -
  have "mset (filter P (order_by key xs)) = mset (filter P xs)"
    by (simp add: order_by_def)
  then show ?thesis by (metis size_mset)
qed

lemma set_map_filter: "set (List.map_filter f xs) = {y. \<exists>x\<in>set xs. f x = Some y}"
  by (auto simp: List.map_filter_def) force

lemma sql_max_Max:
  assumes "sql_max xs = Some m"
  shows "xs \<noteq> [] \<and> m = Max (set xs)"
proof (cases xs)
  case Nil
  with assms show ?thesis by simp
next
  case (Cons a list)
  have "Max (set (a # list)) = fold max list a" by (rule Max.set_eq_fold)
  with Cons assms show ?thesis by simp
qed

subsection \<open>Facts about the admitted orders\<close>

lemma ordered_by_order_by: "order_by key rows \<in> ordered_by key rows"
  by (simp add: ordered_by_def order_by_def)

lemma ordered_by_set: "out \<in> ordered_by key rows \<Longrightarrow> set out = set rows"
  by (auto simp: ordered_by_def dest: mset_eq_setD)





subsection \<open>Network density\<close>

lemma get_follower_network_rows:
  assumes "pk_users db" "fk_follows db"
  shows "get_follower_network db =
         map (\<lambda>f. \<lparr>follower_username = uname db (follower_id f),
                    followee_username = uname db (followee_id f),
                    nr_follow_time = follow_time f\<rparr>) (follows db)"
proof -
  have d: "distinct (map user_id (users db))" using assms(1) by (simp add: pk_users_def)
  have fk1: "\<forall>f\<in>set (follows db). follower_id f \<in> set (map user_id (users db))"
    and fk2: "\<forall>f\<in>set (follows db). followee_id f \<in> set (map user_id (users db))"
    using assms(2) by (auto simp: fk_follows_def list_all_iff)
  let ?j1 = "inner_join (follows db) (users db) (\<lambda>f u1. follower_id f = user_id u1)"
  have j1: "?j1 = map (\<lambda>f. (f, the (find (\<lambda>u. user_id u = follower_id f) (users db)))) (follows db)"
    using inner_join_lookup[OF d fk1] .
  have fk2': "\<forall>a\<in>set ?j1. (followee_id \<circ> fst) a \<in> set (map user_id (users db))"
    using fk2 unfolding j1 by auto
  have on2: "(\<lambda>(f, u1) u2. followee_id f = user_id u2) = (\<lambda>a b. (followee_id \<circ> fst) a = user_id b)"
    by (auto simp: fun_eq_iff)
  have j2: "inner_join ?j1 (users db) (\<lambda>(f, u1) u2. followee_id f = user_id u2) =
            map (\<lambda>a. (a, the (find (\<lambda>u. user_id u = (followee_id \<circ> fst) a) (users db)))) ?j1"
    unfolding on2 using inner_join_lookup[OF d fk2'] .
  show ?thesis
    unfolding get_follower_network_def j2 unfolding j1 by (simp add: uname_def o_def)
qed

lemma uname_inj:
  assumes "pk_users db" "unq_username db"
  shows "inj_on (uname db) (set (map user_id (users db)))"
proof (rule inj_onI)
  fix a b assume a: "a \<in> set (map user_id (users db))" and b: "b \<in> set (map user_id (users db))"
    and e: "uname db a = uname db b"
  have d: "distinct (map user_id (users db))" using assms(1) by (simp add: pk_users_def)
  from a obtain u where u: "u \<in> set (users db)" "user_id u = a" by auto
  from b obtain v where v: "v \<in> set (users db)" "user_id v = b" by auto
  have fu: "find (\<lambda>y. user_id y = a) (users db) = Some u" using find_key_unique[OF d u(1)] u(2) by simp
  have fv: "find (\<lambda>y. user_id y = b) (users db) = Some v" using find_key_unique[OF d v(1)] v(2) by simp
  from e fu fv have "username u = username v" by (simp add: uname_def)
  moreover have "inj_on username (set (users db))"
    using assms(2) by (simp add: unq_username_def distinct_map)
  ultimately have "u = v" using u(1) v(1) by (auto dest: inj_onD)
  with u v show "a = b" by simp
qed

text \<open>
  The density block by itself: under the constraints of the tables, on a snapshot with
  at least one follow edge, it gives \<open>edgeCount / (nodeCount * (nodeCount - 1))\<close>
  together with \<open>nodeCount\<close>, the number of different users that occur as follower
  or followee, and \<open>edgeCount\<close>, the number of different follow edges.
\<close>

lemma density_block_formula:
  assumes "pk_users db" "unq_username db" "pk_follows db" "fk_follows db"
    and "chk_no_self_follow db" and "follows db \<noteq> []"
  shows "network_density (get_follower_network db) =
           Inr \<lparr>density = of_nat (card (follow_edges db)) /
                           of_nat (card (follow_nodes db) * (card (follow_nodes db) - 1)),
                num_users = int (card (follow_nodes db)),
                num_edges = int (card (follow_edges db))\<rparr>
         \<and> (card (follow_nodes db) = 4 \<and> card (follow_edges db) = 6 \<longrightarrow>
              (\<exists>r. network_density (get_follower_network db) = Inr r \<and> density r = 1 / 2))"
proof -
  let ?rows = "get_follower_network db"
  let ?N = "card (follow_nodes db)" and ?E = "card (follow_edges db)"
  note rows = get_follower_network_rows[OF assms(1) assms(4)]
  have ne: "?rows \<noteq> []" using assms(6) by (simp add: rows)
  have len: "length ?rows = ?E"
  proof -
    have "card (set (map (\<lambda>f. (follower_id f, followee_id f)) (follows db))) = length (follows db)"
      using assms(3) distinct_card[of "map (\<lambda>f. (follower_id f, followee_id f)) (follows db)"]
      by (simp add: pk_follows_def)
    then show ?thesis by (simp add: rows follow_edges_def)
  qed
  have names: "set (concat (map (\<lambda>r. [follower_username r, followee_username r]) ?rows))
               = uname db ` follow_nodes db"
    by (auto simp: rows follow_nodes_def)
  have sub: "follow_nodes db \<subseteq> set (map user_id (users db))"
    using assms(4) by (auto simp: fk_follows_def list_all_iff follow_nodes_def)
  have nu: "length (remdups (concat (map (\<lambda>r. [follower_username r, followee_username r]) ?rows))) = ?N"
    unfolding length_remdups_card_conv names
    using uname_inj[OF assms(1,2)] sub by (meson card_image inj_on_subset)
  obtain f where f: "f \<in> set (follows db)" using assms(6) by (cases "follows db") auto
  then have "follower_id f \<noteq> followee_id f" using assms(5) by (simp add: chk_no_self_follow_def list_all_iff)
  moreover have "{follower_id f, followee_id f} \<subseteq> follow_nodes db" using f by (auto simp: follow_nodes_def)
  moreover have "finite (follow_nodes db)" by (simp add: follow_nodes_def)
  ultimately have N2: "2 \<le> ?N"
    by (metis card_2_iff card_mono)
  then have nz: "int ?N * (int ?N - 1) \<noteq> 0" by auto
  have intmul: "int ?N * (int ?N - 1) = int (?N * (?N - 1))"
    using N2 by (simp add: of_nat_diff algebra_simps)
  have main: "network_density ?rows =
           Inr \<lparr>density = of_nat ?E / of_nat (?N * (?N - 1)),
                num_users = int ?N, num_edges = int ?E\<rparr>"
    unfolding network_density_def Let_def nu len using ne nz
    by (simp add: intmul del: of_nat_mult)
  show ?thesis unfolding main by simp
qed

lemma density_block_example:
  "pk_users net_db \<and> unq_username net_db \<and> pk_follows net_db \<and> fk_follows net_db \<and>
   chk_no_self_follow net_db \<and> follows net_db \<noteq> [] \<and>
   card (follow_nodes net_db) = 4 \<and> card (follow_edges net_db) = 6 \<and>
   network_density (get_follower_network net_db) =
     Inr \<lparr>density = 1 / 2, num_users = 4, num_edges = 6\<rparr>"
proof -
  have h1: "pk_users net_db" by (simp add: pk_users_def net_db_def)
  have h2: "unq_username net_db" by (simp add: unq_username_def net_db_def)
  have h3: "pk_follows net_db" by (simp add: pk_follows_def net_db_def)
  have h4: "fk_follows net_db" by (simp add: fk_follows_def net_db_def)
  have h5: "chk_no_self_follow net_db" by (simp add: chk_no_self_follow_def net_db_def)
  have h6: "follows net_db \<noteq> []" by (simp add: net_db_def)
  have "follow_nodes net_db = {1, 2, 3, 4}" by (auto simp: follow_nodes_def net_db_def)
  then have n: "card (follow_nodes net_db) = 4" by simp
  have e: "card (follow_edges net_db) = 6" by (simp add: follow_edges_def net_db_def)
  from density_block_formula[OF h1 h2 h3 h4 h5 h6]
  have "network_density (get_follower_network net_db) =
     Inr \<lparr>density = 1 / 2, num_users = 4, num_edges = 6\<rparr>"
    unfolding n e by simp
  with h1 h2 h3 h4 h5 h6 n e show ?thesis by simp
qed

text \<open>
  C8. \<open>networkDensity\<close> reports \<open>edgeCount / (nodeCount * (nodeCount - 1))\<close>
  with both counts, one half for 4 users and 6 edges. The method that holds the
  computation does not get that far: on the snapshot of 4 users and 6 edges, as on any
  other, it raises AttributeError at its first statement and reports nothing.
\<close>

theorem network_density_never_reported:
  "analyze_and_visualize_network net_db = Inl AttributeError"
  by (simp add: analyze_and_visualize_network_def getattr_def NetworkAnalyzer_attributes_def)

lemma analyze_and_visualize_network_raises:
  "analyze_and_visualize_network db = Inl AttributeError"
  by (simp add: analyze_and_visualize_network_def getattr_def NetworkAnalyzer_attributes_def)

lemma sql_queries_on_empty_db:
  "get_follower_network empty_db = []"
  "get_post_engagement eng empty_db now days = []"
  "get_user_engagement_summary empty_db = []"
  "get_top_contributors empty_db now days limit = []"
  "identify_controversial_posts eng empty_db min_comments min_stddev = []"
  "analyze_thread_depth MySQL cap empty_db min_depth = Inr {[]}"
  "analyze_thread_depth PostgreSQL cap empty_db min_depth = Inl SyntaxError"
proof -
  show "get_follower_network empty_db = []"
    by (simp add: get_follower_network_def inner_join_def empty_db_def)
  show "get_post_engagement eng empty_db now days = []"
    by (simp add: get_post_engagement_def post_stats_rows_def post_stats_join_def group_by_def
        left_join_def inner_join_def order_by_def empty_db_def)
  show "get_user_engagement_summary empty_db = []"
    by (simp add: get_user_engagement_summary_def summary_join_def group_by_def left_join_def
        order_by_def empty_db_def)
  show "get_top_contributors empty_db now days limit = []"
    by (simp add: get_top_contributors_def user_activity_rows_def user_activity_join_def
        group_by_def left_join_def order_by_def empty_db_def)
  show "identify_controversial_posts eng empty_db min_comments min_stddev = []"
    by (simp add: identify_controversial_posts_def inner_join_def left_join_def order_by_def
        empty_db_def)
  have "comment_threads cap (comments empty_db) = Inr []"
    by (cases cap) (simp_all add: comment_threads_def cte_base_def empty_db_def)
  then show "analyze_thread_depth MySQL cap empty_db min_depth = Inr {[]}"
    by (auto simp: analyze_thread_depth_def thread_depth_rows_def thread_join_def inner_join_def
        group_by_def List.map_filter_simps ordered_by_def empty_db_def)
  show "analyze_thread_depth PostgreSQL cap empty_db min_depth = Inl SyntaxError"
    by (simp add: analyze_thread_depth_def)
qed

text \<open>
  C9. Every analyzer operation answers a snapshot with no matching rows by an empty
  result and never raises. The density computation does not: on the empty follow graph
  the frame has no columns, and the computation raises instead of reporting a result
  (in the method as it stands the AttributeError of its first statement comes before).
\<close>

theorem network_density_empty_raises:
  "network_density (get_follower_network empty_db) = Inl KeyError"
  by (simp add: network_density_def get_follower_network_def inner_join_def empty_db_def)

subsection \<open>User engagement summary\<close>

lemma summary_join_like:
  "(\<exists>c f fl. (((((u, p), Some l), c), f), fl) \<in> set (summary_join db)) \<longleftrightarrow>
     u \<in> set (users db) \<and> l \<in> set (likes db) \<and>
     (\<exists>p'. p = Some p' \<and> p' \<in> set (posts db) \<and> user_id u = post_user_id p' \<and>
           Some (post_id p') = like_post_id l)"
  (is "?L \<longleftrightarrow> ?R")
proof
  assume ?L
  then show ?R
    by (auto simp: summary_join_def in_left_join split: option.splits)
next
  assume r: ?R
  let ?J1 = "left_join (users db) (posts db) (\<lambda>u p. user_id u = post_user_id p)"
  let ?J2 = "left_join ?J1 (likes db)
       (\<lambda>(u, p) l. case p of None \<Rightarrow> False | Some p' \<Rightarrow> Some (post_id p') = like_post_id l)"
  let ?J3 = "left_join ?J2 (comments db)
       (\<lambda>((u, p), l) c. case p of None \<Rightarrow> False | Some p' \<Rightarrow> post_id p' = comment_post_id c)"
  let ?J4 = "left_join ?J3 (follows db) (\<lambda>(((u, p), l), c) f. user_id u = followee_id f)"
  from r have "((u, p), Some l) \<in> set ?J2" by (auto simp: in_left_join)
  then have "\<exists>c. (((u, p), Some l), c) \<in> set ?J3" by (rule left_join_extend)
  then obtain c where "(((u, p), Some l), c) \<in> set ?J3" ..
  then have "\<exists>f. ((((u, p), Some l), c), f) \<in> set ?J4" by (rule left_join_extend)
  then obtain f where "((((u, p), Some l), c), f) \<in> set ?J4" ..
  then have "\<exists>fl. (((((u, p), Some l), c), f), fl) \<in> set (summary_join db)"
    unfolding summary_join_def by (rule left_join_extend)
  then obtain fl where "(((((u, p), Some l), c), f), fl) \<in> set (summary_join db)" ..
  then show ?L by blast
qed

lemma summary_join_comment:
  "(\<exists>l f fl. (((((u, p), l), Some c), f), fl) \<in> set (summary_join db)) \<longleftrightarrow>
     u \<in> set (users db) \<and> c \<in> set (comments db) \<and>
     (\<exists>p'. p = Some p' \<and> p' \<in> set (posts db) \<and> user_id u = post_user_id p' \<and>
           post_id p' = comment_post_id c)"
  (is "?L \<longleftrightarrow> ?R")
proof
  assume ?L
  then show ?R
    by (auto simp: summary_join_def in_left_join split: option.splits)
next
  assume r: ?R
  let ?J1 = "left_join (users db) (posts db) (\<lambda>u p. user_id u = post_user_id p)"
  let ?J2 = "left_join ?J1 (likes db)
       (\<lambda>(u, p) l. case p of None \<Rightarrow> False | Some p' \<Rightarrow> Some (post_id p') = like_post_id l)"
  let ?J3 = "left_join ?J2 (comments db)
       (\<lambda>((u, p), l) c. case p of None \<Rightarrow> False | Some p' \<Rightarrow> post_id p' = comment_post_id c)"
  let ?J4 = "left_join ?J3 (follows db) (\<lambda>(((u, p), l), c) f. user_id u = followee_id f)"
  from r have "(u, p) \<in> set ?J1" by (auto simp: in_left_join)
  then have "\<exists>l. ((u, p), l) \<in> set ?J2" by (rule left_join_extend)
  then obtain l where "((u, p), l) \<in> set ?J2" ..
  with r have "(((u, p), l), Some c) \<in> set ?J3" by (auto simp: in_left_join)
  then have "\<exists>f. ((((u, p), l), Some c), f) \<in> set ?J4" by (rule left_join_extend)
  then obtain f where "((((u, p), l), Some c), f) \<in> set ?J4" ..
  then have "\<exists>fl. (((((u, p), l), Some c), f), fl) \<in> set (summary_join db)"
    unfolding summary_join_def by (rule left_join_extend)
  then obtain fl where "(((((u, p), l), Some c), f), fl) \<in> set (summary_join db)" ..
  then show ?L by blast
qed

lemma summary_join_user:
  "(((((u, p), l), c), f), fl) \<in> set (summary_join db) \<Longrightarrow> u \<in> set (users db)"
  by (auto simp: summary_join_def in_left_join)

lemma summary_group_counts:
  assumes "(k, rows) \<in> set (group_by (\<lambda>(((((u, p), l), c), f), fl). (user_id u, username u)) (summary_join db))"
  shows "ue_user_id (summary_group (k, rows)) = fst k"
    and "ue_likes_received (summary_group (k, rows)) = card (like_id ` post_likes_of db (fst k))"
    and "ue_comments_received (summary_group (k, rows)) = card (comment_id ` post_comments_of db (fst k))"
proof -
  obtain uid uname where k: "k = (uid, uname)" by (cases k)
  from assms obtain row0 where row0: "row0 \<in> set (summary_join db)"
      "(\<lambda>(((((u, p), l), c), f), fl). (user_id u, username u)) row0 = k"
    and rows: "rows = filter (\<lambda>r. (\<lambda>(((((u, p), l), c), f), fl). (user_id u, username u)) r = k) (summary_join db)"
    by (auto simp: in_group_by)
  obtain u0 p0 l0 c0 f0 fl0 where r0: "row0 = (((((u0, p0), l0), c0), f0), fl0)"
    by (metis surj_pair)
  have u0: "u0 \<in> set (users db)" "user_id u0 = uid" "username u0 = uname"
    using row0 k summary_join_user unfolding r0 by auto
  show "ue_user_id (summary_group (k, rows)) = fst k"
    by (simp add: summary_group_def k Let_def)
  have "{v. Some v \<in> set (map (\<lambda>(((((u, p), l), c), f), fl). map_option like_id l) rows)}
        = like_id ` post_likes_of db uid" (is "?A = ?B")
  proof (rule set_eqI, rule iffI)
    fix v assume "v \<in> ?A"
    then obtain row where row: "row \<in> set rows"
      "(\<lambda>(((((u, p), l), c), f), fl). map_option like_id l) row = Some v" by auto
    obtain u p l c f fl where rw: "row = (((((u, p), l), c), f), fl)" by (metis surj_pair)
    have m: "(((((u, p), l), c), f), fl) \<in> set (summary_join db)"
      "user_id u = uid" "map_option like_id l = Some v"
      using row unfolding rows k rw by auto
    then obtain l' where l': "l = Some l'" "like_id l' = v" by auto
    from m(1) have "\<exists>c f fl. (((((u, p), Some l'), c), f), fl) \<in> set (summary_join db)"
      unfolding l' by blast
    then have "l' \<in> post_likes_of db uid"
      unfolding summary_join_like post_likes_of_def using m(2) by force
    with l' show "v \<in> ?B" by blast
  next
    fix v assume "v \<in> ?B"
    then obtain l p where l: "l \<in> set (likes db)" "p \<in> set (posts db)" "post_user_id p = uid"
      "like_post_id l = Some (post_id p)" "v = like_id l"
      by (auto simp: post_likes_of_def)
    then have "\<exists>c f fl. (((((u0, Some p), Some l), c), f), fl) \<in> set (summary_join db)"
      unfolding summary_join_like using u0 by simp
    then obtain c f fl where "(((((u0, Some p), Some l), c), f), fl) \<in> set (summary_join db)" by blast
    then have "(((((u0, Some p), Some l), c), f), fl) \<in> set rows"
      unfolding rows k using u0 by simp
    then have "Some v \<in> (\<lambda>(((((u, p), l), c), f), fl). map_option like_id l) ` set rows"
      using l(5) by force
    then show "v \<in> ?A" by simp
  qed
  then show "ue_likes_received (summary_group (k, rows)) = card (like_id ` post_likes_of db (fst k))"
    by (simp add: summary_group_def k Let_def count_distinct_card)
  have "{v. Some v \<in> set (map (\<lambda>(((((u, p), l), c), f), fl). map_option comment_id c) rows)}
        = comment_id ` post_comments_of db uid" (is "?A = ?B")
  proof (rule set_eqI, rule iffI)
    fix v assume "v \<in> ?A"
    then obtain row where row: "row \<in> set rows"
      "(\<lambda>(((((u, p), l), c), f), fl). map_option comment_id c) row = Some v" by auto
    obtain u p l c f fl where rw: "row = (((((u, p), l), c), f), fl)" by (metis surj_pair)
    have m: "(((((u, p), l), c), f), fl) \<in> set (summary_join db)"
      "user_id u = uid" "map_option comment_id c = Some v"
      using row unfolding rows k rw by auto
    then obtain c' where c': "c = Some c'" "comment_id c' = v" by auto
    from m(1) have "\<exists>l f fl. (((((u, p), l), Some c'), f), fl) \<in> set (summary_join db)"
      unfolding c' by blast
    then have "c' \<in> post_comments_of db uid"
      unfolding summary_join_comment post_comments_of_def using m(2) by force
    with c' show "v \<in> ?B" by blast
  next
    fix v assume "v \<in> ?B"
    then obtain c p where l: "c \<in> set (comments db)" "p \<in> set (posts db)" "post_user_id p = uid"
      "comment_post_id c = post_id p" "v = comment_id c"
      by (auto simp: post_comments_of_def)
    then have "\<exists>l f fl. (((((u0, Some p), l), Some c), f), fl) \<in> set (summary_join db)"
      unfolding summary_join_comment using u0 by simp
    then obtain l' f fl where "(((((u0, Some p), l'), Some c), f), fl) \<in> set (summary_join db)" by blast
    then have "(((((u0, Some p), l'), Some c), f), fl) \<in> set rows"
      unfolding rows k using u0 by simp
    then have "Some v \<in> (\<lambda>(((((u, p), l), c), f), fl). map_option comment_id c) ` set rows"
      using l(5) by force
    then show "v \<in> ?A" by simp
  qed
  then show "ue_comments_received (summary_group (k, rows)) = card (comment_id ` post_comments_of db (fst k))"
    by (simp add: summary_group_def k Let_def count_distinct_card)
qed

lemma summary_ignores_comment_likes:
  "get_user_engagement_summary (db\<lparr>likes := filter (\<lambda>l. like_post_id l \<noteq> None) (likes db)\<rparr>)
     = get_user_engagement_summary db"
proof -
  have "summary_join (db\<lparr>likes := filter (\<lambda>l. like_post_id l \<noteq> None) (likes db)\<rparr>) = summary_join db"
    unfolding summary_join_def
    by (simp, subst left_join_filter_irrelevant) (auto split: option.splits dest: sym)
  then show ?thesis by (simp add: get_user_engagement_summary_def)
qed

text \<open>
  C10. In every row of the user engagement summary, \<open>likes_received\<close> is the number
  of likes whose post reference is one of that user's posts and \<open>comments_received\<close>
  the number of comments on that user's posts; a like whose target is a comment (its
  post reference is NULL) is counted for no user: leaving all such likes out of the
  snapshot changes nothing in the summary.
\<close>

theorem likes_received_only_post_likes:
  assumes "r \<in> set (get_user_engagement_summary db)"
  shows "ue_likes_received r = card (like_id ` post_likes_of db (ue_user_id r)) \<and>
         ue_comments_received r = card (comment_id ` post_comments_of db (ue_user_id r)) \<and>
         get_user_engagement_summary (db\<lparr>likes := filter (\<lambda>l. like_post_id l \<noteq> None) (likes db)\<rparr>)
           = get_user_engagement_summary db"
proof -
  from assms obtain k rows where g: "(k, rows) \<in> set (group_by (\<lambda>(((((u, p), l), c), f), fl). (user_id u, username u)) (summary_join db))"
    and r: "r = summary_group (k, rows)"
    by (auto simp: get_user_engagement_summary_def set_order_by)
  show ?thesis
    unfolding r using summary_group_counts[OF g] summary_ignores_comment_likes by simp
qed

theorem likes_received_only_post_likes_witness:
  "hd (get_user_engagement_summary like_db) \<in> set (get_user_engagement_summary like_db) \<and>
   ue_user_id (hd (get_user_engagement_summary like_db)) = 1 \<and>
   ue_likes_received (hd (get_user_engagement_summary like_db)) = 1 \<and>
   card (like_id ` post_likes_of like_db 1) = 1 \<and>
   ue_comments_received (hd (get_user_engagement_summary like_db)) = 1 \<and>
   card (comment_id ` post_comments_of like_db 1) = 1 \<and>
   length (likes like_db) = 2"
proof -
  have e: "get_user_engagement_summary like_db =
    [\<lparr>ue_user_id = 1, ue_username = ''alice'', ue_post_count = 1, ue_likes_received = 1,
      ue_comments_received = 1, ue_follower_count = 1, ue_following_count = 0,
      ue_avg_like_rate = Some 100, ue_avg_comment_rate = Some 100\<rparr>,
     \<lparr>ue_user_id = 2, ue_username = ''bob'', ue_post_count = 0, ue_likes_received = 0,
      ue_comments_received = 0, ue_follower_count = 0, ue_following_count = 1,
      ue_avg_like_rate = None, ue_avg_comment_rate = None\<rparr>]"
    by code_simp
  have m: "hd (get_user_engagement_summary like_db) \<in> set (get_user_engagement_summary like_db)"
    unfolding e by simp
  have l: "length (likes like_db) = 2" by (simp add: like_db_def)
  from likes_received_only_post_likes[OF m] m l show ?thesis
    unfolding e by simp
qed

subsection \<open>Post engagement\<close>


lemma in_post_stats_join:
  "((((p, l), c), u), f) \<in> set (post_stats_join db start) \<longleftrightarrow>
     p \<in> set (posts db) \<and>
     opt_match (set (likes db)) (\<lambda>l'. Some (post_id p) = like_post_id l') l \<and>
     opt_match (set (comments db)) (\<lambda>c'. post_id p = comment_post_id c') c \<and>
     u \<in> set (users db) \<and> post_user_id p = user_id u \<and>
     opt_match (set (follows db)) (\<lambda>f'. post_user_id p = followee_id f') f \<and>
     ts_ge (post_time p) start"
  unfolding post_stats_join_def opt_match_def
  by (cases l; cases c; cases f) (auto simp: in_left_join set_inner_join)



lemma engagement_row_sel:
  "pe_post_id (engagement_row rows r) = pe_post_id r"
  "pe_author_id (engagement_row rows r) = pe_author_id r"
  "pe_like_count (engagement_row rows r) = pe_like_count r"
  "pe_comment_count (engagement_row rows r) = pe_comment_count r"
  "pe_follower_count (engagement_row rows r) = pe_follower_count r"
  "engagement_rate (engagement_row rows r) = percent_of (pe_like_count r + pe_comment_count r) (pe_follower_count r)"
  "engagement_rank (engagement_row rows r) = RANK_desc (\<lambda>x. pe_like_count x + pe_comment_count x) rows r"
  by (simp_all add: engagement_row_def post_stats.defs post_engagement.defs)

lemma post_stats_group_counts:
  assumes g: "(k, grows) \<in> set (group_by (\<lambda>((((p, l), c), u), f). (post_id p, post_user_id p, username u, post_text p, post_time p))
          (post_stats_join db start))"
    and k: "k = (pid, aid, aname, ptext, ptime)"
  shows "count_distinct (map (\<lambda>((((p, l), c), u), f). map_option like_user_id l) grows) = card (post_likers db pid)"
    and "count_distinct (map (\<lambda>((((p, l), c), u), f). map_option comment_id c) grows) = card (post_comment_ids db pid)"
    and "count_distinct (map (\<lambda>((((p, l), c), u), f). map_option follower_id f) grows) = card (followers_of db aid)"
proof -
  let ?key = "\<lambda>((((p, l), c), u), f). (post_id p, post_user_id p, username u, post_text p, post_time p)"
  let ?J = "post_stats_join db start"
  from g obtain row0 where row0: "row0 \<in> set ?J" "?key row0 = k"
    and grows: "grows = filter (\<lambda>r. ?key r = k) ?J"
    by (auto simp: in_group_by)
  obtain p0 l0 c0 u0 f0 where r0: "row0 = ((((p0, l0), c0), u0), f0)" by (metis surj_pair)
  have base: "p0 \<in> set (posts db)" "u0 \<in> set (users db)" "post_user_id p0 = user_id u0"
    "ts_ge (post_time p0) start"
    and ml0: "opt_match (set (likes db)) (\<lambda>l'. Some (post_id p0) = like_post_id l') l0"
    and mc0: "opt_match (set (comments db)) (\<lambda>c'. post_id p0 = comment_post_id c') c0"
    and mf0: "opt_match (set (follows db)) (\<lambda>f'. post_user_id p0 = followee_id f') f0"
    using row0(1) unfolding r0 in_post_stats_join by auto
  have k0: "post_id p0 = pid" "post_user_id p0 = aid" "?key ((((p0, l), c), u0), f) = k" for l c f
    using row0(2) unfolding r0 k by auto
  have mem: "((((p0, l), c), u0), f) \<in> set grows"
    if "opt_match (set (likes db)) (\<lambda>l'. Some (post_id p0) = like_post_id l') l"
       "opt_match (set (comments db)) (\<lambda>c'. post_id p0 = comment_post_id c') c"
       "opt_match (set (follows db)) (\<lambda>f'. post_user_id p0 = followee_id f') f" for l c f
    unfolding grows using that base k0(3)[of l c f] by (simp add: in_post_stats_join)
  have sub: "post_id p = pid \<and> post_user_id p = aid \<and>
      opt_match (set (likes db)) (\<lambda>l'. Some (post_id p) = like_post_id l') l \<and>
      opt_match (set (comments db)) (\<lambda>c'. post_id p = comment_post_id c') c \<and>
      opt_match (set (follows db)) (\<lambda>f'. post_user_id p = followee_id f') f"
    if "((((p, l), c), u), f) \<in> set grows" for p l c u f
    using that unfolding grows k by (auto simp: in_post_stats_join)
  have "{v. Some v \<in> set (map (\<lambda>((((p, l), c), u), f). map_option like_user_id l) grows)}
        = post_likers db pid" (is "?A = ?B")
  proof (rule set_eqI, rule iffI)
    fix v assume "v \<in> ?A"
    then obtain row where row: "row \<in> set grows"
      "(\<lambda>((((p, l), c), u), f). map_option like_user_id l) row = Some v" by auto
    obtain p l c u f where rw: "row = ((((p, l), c), u), f)" by (metis surj_pair)
    from row(2) obtain l' where l': "l = Some l'" "like_user_id l' = v" unfolding rw by auto
    from sub[OF row(1)[unfolded rw]] show "v \<in> ?B"
      unfolding l' post_likers_def opt_match_def using l'(2) by force
  next
    fix v assume "v \<in> ?B"
    then obtain l where l: "l \<in> set (likes db)" "like_post_id l = Some pid" "v = like_user_id l"
      by (auto simp: post_likers_def)
    then have m1: "opt_match (set (likes db)) (\<lambda>l'. Some (post_id p0) = like_post_id l') (Some l)"
      by (simp add: opt_match_def k0)
    from mem[OF m1 mc0 mf0]
    have "Some v \<in> (\<lambda>((((p, l), c), u), f). map_option like_user_id l) ` set grows"
      using l(3) by force
    then show "v \<in> ?A" by simp
  qed
  then show "count_distinct (map (\<lambda>((((p, l), c), u), f). map_option like_user_id l) grows) = card (post_likers db pid)"
    by (simp add: count_distinct_card)
  have "{v. Some v \<in> set (map (\<lambda>((((p, l), c), u), f). map_option comment_id c) grows)}
        = post_comment_ids db pid" (is "?A = ?B")
  proof (rule set_eqI, rule iffI)
    fix v assume "v \<in> ?A"
    then obtain row where row: "row \<in> set grows"
      "(\<lambda>((((p, l), c), u), f). map_option comment_id c) row = Some v" by auto
    obtain p l c u f where rw: "row = ((((p, l), c), u), f)" by (metis surj_pair)
    from row(2) obtain c' where c': "c = Some c'" "comment_id c' = v" unfolding rw by auto
    from sub[OF row(1)[unfolded rw]] show "v \<in> ?B"
      unfolding c' post_comment_ids_def opt_match_def using c'(2) by force
  next
    fix v assume "v \<in> ?B"
    then obtain c where c: "c \<in> set (comments db)" "comment_post_id c = pid" "v = comment_id c"
      by (auto simp: post_comment_ids_def)
    then have m1: "opt_match (set (comments db)) (\<lambda>c'. post_id p0 = comment_post_id c') (Some c)"
      by (simp add: opt_match_def k0)
    from mem[OF ml0 m1 mf0]
    have "Some v \<in> (\<lambda>((((p, l), c), u), f). map_option comment_id c) ` set grows"
      using c(3) by force
    then show "v \<in> ?A" by simp
  qed
  then show "count_distinct (map (\<lambda>((((p, l), c), u), f). map_option comment_id c) grows) = card (post_comment_ids db pid)"
    by (simp add: count_distinct_card)
  have "{v. Some v \<in> set (map (\<lambda>((((p, l), c), u), f). map_option follower_id f) grows)}
        = followers_of db aid" (is "?A = ?B")
  proof (rule set_eqI, rule iffI)
    fix v assume "v \<in> ?A"
    then obtain row where row: "row \<in> set grows"
      "(\<lambda>((((p, l), c), u), f). map_option follower_id f) row = Some v" by auto
    obtain p l c u f where rw: "row = ((((p, l), c), u), f)" by (metis surj_pair)
    from row(2) obtain f' where f': "f = Some f'" "follower_id f' = v" unfolding rw by auto
    from sub[OF row(1)[unfolded rw]] show "v \<in> ?B"
      unfolding f' followers_of_def opt_match_def using f'(2) by force
  next
    fix v assume "v \<in> ?B"
    then obtain f where f: "f \<in> set (follows db)" "followee_id f = aid" "v = follower_id f"
      by (auto simp: followers_of_def)
    then have m1: "opt_match (set (follows db)) (\<lambda>f'. post_user_id p0 = followee_id f') (Some f)"
      by (simp add: opt_match_def k0)
    from mem[OF ml0 mc0 m1]
    have "Some v \<in> (\<lambda>((((p, l), c), u), f). map_option follower_id f) ` set grows"
      using f(3) by force
    then show "v \<in> ?A" by simp
  qed
  then show "count_distinct (map (\<lambda>((((p, l), c), u), f). map_option follower_id f) grows) = card (followers_of db aid)"
    by (simp add: count_distinct_card)
qed

lemma post_stats_rows_counts:
  assumes "s \<in> set (post_stats_rows db start)"
  shows "pe_like_count s = card (post_likers db (pe_post_id s)) \<and>
         pe_comment_count s = card (post_comment_ids db (pe_post_id s)) \<and>
         pe_follower_count s = card (followers_of db (pe_author_id s))"
proof -
  from assms obtain k grows where g: "(k, grows) \<in> set (group_by (\<lambda>((((p, l), c), u), f). (post_id p, post_user_id p, username u, post_text p, post_time p))
          (post_stats_join db start))"
    and s: "s = (\<lambda>((pid, aid, aname, ptext, ptime), rows).
            \<lparr>pe_post_id = pid, pe_author_id = aid, pe_author_name = aname,
             pe_post_text = ptext, pe_post_time = ptime,
             pe_like_count = count_distinct (map (\<lambda>((((p, l), c), u), f). map_option like_user_id l) rows),
             pe_comment_count = count_distinct (map (\<lambda>((((p, l), c), u), f). map_option comment_id c) rows),
             pe_follower_count = count_distinct (map (\<lambda>((((p, l), c), u), f). map_option follower_id f) rows)\<rparr>) (k, grows)"
    unfolding post_stats_rows_def by auto
  obtain pid aid aname ptext ptime where k: "k = (pid, aid, aname, ptext, ptime)"
    by (metis surj_pair)
  show ?thesis
    unfolding s k using post_stats_group_counts[OF g k] by simp
qed

lemma percent_of_None: "percent_of n d = None \<longleftrightarrow> d = 0"
  by (simp add: percent_of_def NULLIF_def)

lemma percent_of_Some: "d \<noteq> 0 \<Longrightarrow> percent_of n d = Some (sql_round2 (of_nat n * 100 / of_nat d))"
  by (simp add: percent_of_def NULLIF_def)

text \<open>
  C2 (as amended). In every row of \<open>get_post_engagement\<close> the three counts are the
  number of distinct likers of the post, the number of its comments and the number of
  distinct followers of its author; \<open>engagement_rate\<close> is NULL exactly when the
  follower count is 0 (no division error, no coercion to 0), and otherwise it is
  \<open>(likes + comments) * 100 / followers\<close> rounded to two decimal places.
\<close>

theorem engagement_rate_null_safe:
  assumes "r \<in> set (get_post_engagement eng db now days)"
  shows "pe_like_count r = card (post_likers db (pe_post_id r)) \<and>
         pe_comment_count r = card (post_comment_ids db (pe_post_id r)) \<and>
         pe_follower_count r = card (followers_of db (pe_author_id r)) \<and>
         (engagement_rate r = None \<longleftrightarrow> pe_follower_count r = 0) \<and>
         (pe_follower_count r \<noteq> 0 \<longrightarrow>
            engagement_rate r =
              Some (sql_round2 (of_nat (pe_like_count r + pe_comment_count r) * 100 / of_nat (pe_follower_count r))))"
proof -
  let ?rows = "post_stats_rows db (start_date now days)"
  from assms obtain s where s: "s \<in> set ?rows" and r: "r = engagement_row ?rows s"
    by (auto simp: get_post_engagement_def Let_def set_order_by)
  show ?thesis
    unfolding r engagement_row_sel using post_stats_rows_counts[OF s]
    by (simp add: percent_of_None percent_of_Some)
qed

theorem engagement_rate_null_safe_witness:
  "last (get_post_engagement PostgreSQL rate_db 0 30) \<in> set (get_post_engagement PostgreSQL rate_db 0 30) \<and>
   pe_follower_count (last (get_post_engagement PostgreSQL rate_db 0 30)) = 3 \<and>
   card (followers_of rate_db 1) = 3 \<and>
   engagement_rate (last (get_post_engagement PostgreSQL rate_db 0 30)) = Some (3333 / 100) \<and>
   hd (get_post_engagement PostgreSQL rate_db 0 30) \<in> set (get_post_engagement PostgreSQL rate_db 0 30) \<and>
   pe_follower_count (hd (get_post_engagement PostgreSQL rate_db 0 30)) = 0 \<and>
   engagement_rate (hd (get_post_engagement PostgreSQL rate_db 0 30)) = None"
proof -
  have e: "get_post_engagement PostgreSQL rate_db 0 30 =
    [\<lparr>pe_post_id = 11, pe_author_id = 2, pe_author_name = ''bob'',
      pe_post_text = Some ''world'', pe_post_time = Some 0,
      pe_like_count = 0, pe_comment_count = 0, pe_follower_count = 0,
      engagement_rate = None, engagement_rank = 2\<rparr>,
     \<lparr>pe_post_id = 10, pe_author_id = 1, pe_author_name = ''alice'',
      pe_post_text = Some ''hello'', pe_post_time = Some 0,
      pe_like_count = 1, pe_comment_count = 0, pe_follower_count = 3,
      engagement_rate = Some (3333 / 100), engagement_rank = 1\<rparr>]"
    by code_simp
  have m1: "last (get_post_engagement PostgreSQL rate_db 0 30) \<in> set (get_post_engagement PostgreSQL rate_db 0 30)"
    and m2: "hd (get_post_engagement PostgreSQL rate_db 0 30) \<in> set (get_post_engagement PostgreSQL rate_db 0 30)"
    unfolding e by simp_all
  from engagement_rate_null_safe[OF m1] engagement_rate_null_safe[OF m2] m1 m2
  show ?thesis unfolding e by simp
qed

text \<open>
  C2 as stated asks for the exact quotient. With one like, no comment and three
  followers the reported rate is 33.33, not 100 / 3.
\<close>

theorem engagement_rate_exact_counterexample:
  "map (\<lambda>r. (pe_post_id r, pe_like_count r, pe_comment_count r, pe_follower_count r, engagement_rate r))
       (get_post_engagement PostgreSQL rate_db 0 30)
     = [(11, 0, 0, 0, None), (10, 1, 0, 3, Some (3333 / 100))]
   \<and> (3333 / 100 :: rat) \<noteq> (1 + 0) * 100 / 3"
  by code_simp

text \<open>
  C4 as stated asks for the dense rank. With combined counts 2, 2 and 1 the reported
  ranks are 1, 1 and 3, the dense ranks 1, 1 and 2.
\<close>

theorem engagement_rank_dense_counterexample: "map (\<lambda>r. (pe_post_id r, combined r, engagement_rank r,
             dense_rank_desc combined (get_post_engagement PostgreSQL rank_db 0 30) r))
       (get_post_engagement PostgreSQL rank_db 0 30)
     = [(10, 2, 1, 1), (11, 2, 1, 1), (12, 1, 3, 2)]"
  by code_simp


text \<open>
  C4 (as amended). \<open>engagement_rank\<close> is the rank of the post's combined count in
  descending order: one more than the number of reported posts with a strictly greater
  combined count. Posts with equal combined counts share a rank; the ranks after a tie
  are not consecutive.
\<close>

theorem engagement_rank_is_rank:
  assumes "r \<in> set (get_post_engagement eng db now days)"
  shows "engagement_rank r =
           1 + length (filter (\<lambda>r'. combined r < combined r') (get_post_engagement eng db now days)) \<and>
         (\<forall>r'\<in>set (get_post_engagement eng db now days).
            combined r' = combined r \<longrightarrow> engagement_rank r' = engagement_rank r)"
proof -
  let ?rows = "post_stats_rows db (start_date now days)"
  have rank: "engagement_rank x =
           1 + length (filter (\<lambda>r'. combined x < combined r') (get_post_engagement eng db now days))"
    if "x \<in> set (get_post_engagement eng db now days)" for x
  proof -
    from that obtain s where s: "s \<in> set ?rows" and x: "x = engagement_row ?rows s"
      by (auto simp: get_post_engagement_def Let_def set_order_by)
    have "length (filter (\<lambda>r'. combined x < combined r') (get_post_engagement eng db now days))
        = length (filter (\<lambda>r'. combined x < combined r') (map (engagement_row ?rows) ?rows))"
      by (simp add: get_post_engagement_def Let_def length_filter_order_by)
    also have "\<dots> = length (filter (\<lambda>s'. combined s < combined s') ?rows)"
      by (simp add: filter_map o_def combined_def engagement_row_sel x)
    finally show ?thesis
      by (simp add: x engagement_row_sel RANK_desc_def combined_def)
  qed
  show ?thesis using rank[OF assms] rank by simp
qed

theorem engagement_rank_is_rank_witness:
  "last (get_post_engagement PostgreSQL rank_db 0 30) \<in> set (get_post_engagement PostgreSQL rank_db 0 30) \<and>
   hd (get_post_engagement PostgreSQL rank_db 0 30) \<in> set (get_post_engagement PostgreSQL rank_db 0 30) \<and>
   map combined (get_post_engagement PostgreSQL rank_db 0 30) = [2, 2, 1] \<and>
   engagement_rank (last (get_post_engagement PostgreSQL rank_db 0 30)) = 3 \<and>
   engagement_rank (hd (get_post_engagement PostgreSQL rank_db 0 30)) = 1 \<and>
   engagement_rank (get_post_engagement PostgreSQL rank_db 0 30 ! 1) = 1"
proof -
  have e: "get_post_engagement PostgreSQL rank_db 0 30 =
    [\<lparr>pe_post_id = 10, pe_author_id = 1, pe_author_name = ''alice'',
      pe_post_text = Some ''a'', pe_post_time = Some 0, pe_like_count = 2,
      pe_comment_count = 0, pe_follower_count = 0, engagement_rate = None,
      engagement_rank = 1\<rparr>,
     \<lparr>pe_post_id = 11, pe_author_id = 1, pe_author_name = ''alice'',
      pe_post_text = Some ''b'', pe_post_time = Some 0, pe_like_count = 2,
      pe_comment_count = 0, pe_follower_count = 0, engagement_rate = None,
      engagement_rank = 1\<rparr>,
     \<lparr>pe_post_id = 12, pe_author_id = 1, pe_author_name = ''alice'',
      pe_post_text = Some ''c'', pe_post_time = Some 0, pe_like_count = 1,
      pe_comment_count = 0, pe_follower_count = 0, engagement_rate = None,
      engagement_rank = 3\<rparr>]"
    by code_simp
  have m1: "last (get_post_engagement PostgreSQL rank_db 0 30) \<in> set (get_post_engagement PostgreSQL rank_db 0 30)"
    and m2: "hd (get_post_engagement PostgreSQL rank_db 0 30) \<in> set (get_post_engagement PostgreSQL rank_db 0 30)"
    unfolding e by simp_all
  from engagement_rank_is_rank[OF m1] engagement_rank_is_rank[OF m2] m1 m2
  show ?thesis unfolding e by (simp add: combined_def)
qed

subsection \<open>Top contributors\<close>

lemma in_user_activity_join:
  "(((((u, p), c), l), f), f2) \<in> set (user_activity_join db now days) \<longleftrightarrow>
     u \<in> set (users db) \<and>
     opt_match (set (posts db)) (\<lambda>x. user_id u = post_user_id x \<and> in_window now days (post_time x)) p \<and>
     opt_match (set (comments db)) (\<lambda>x. user_id u = comment_user_id x \<and> in_window now days (comment_time x)) c \<and>
     opt_match (set (likes db)) (\<lambda>x. user_id u = like_user_id x \<and> in_window now days (like_time x)) l \<and>
     opt_match (set (follows db)) (\<lambda>x. user_id u = follower_id x \<and> in_window now days (follow_time x)) f \<and>
     opt_match (set (follows db)) (\<lambda>x. user_id u = followee_id x \<and> in_window now days (follow_time x)) f2"
  unfolding user_activity_join_def opt_match_def
  by (cases p; cases c; cases l; cases f; cases f2) (auto simp: in_left_join)


lemma user_activity_group_counts:
  assumes g: "(k, grows) \<in> set (group_by (\<lambda>(((((u, p), c), l), f), f2). (user_id u, username u))
                 (user_activity_join db now days))"
    and k: "k = (uid, un)"
  shows "count_distinct (map (\<lambda>(((((u, p), c), l), f), f2). map_option post_id p) grows)
           = card (post_id ` windowed_posts db now days uid)"
    and "count_distinct (map (\<lambda>(((((u, p), c), l), f), f2). map_option comment_id c) grows)
           = card (comment_id ` windowed_comments db now days uid)"
    and "count_distinct (map (\<lambda>(((((u, p), c), l), f), f2). map_option like_id l) grows)
           = card (like_id ` windowed_likes db now days uid)"
    and "count_distinct (map (\<lambda>(((((u, p), c), l), f), f2).
            Option.bind f (\<lambda>x. if in_window now days (follow_time x) then Some (followee_id x) else None)) grows)
           = card (followee_id ` windowed_following db now days uid)"
    and "count_distinct (map (\<lambda>(((((u, p), c), l), f), f2).
            Option.bind f2 (\<lambda>x. if in_window now days (follow_time x) then Some (follower_id x) else None)) grows)
           = card (follower_id ` windowed_followers db now days uid)"
proof -
  let ?key = "\<lambda>(((((u, p), c), l), f), f2). (user_id u, username u)"
  let ?J = "user_activity_join db now days"
  let ?P = "\<lambda>u x. user_id u = post_user_id x \<and> in_window now days (post_time x)"
  let ?C = "\<lambda>u x. user_id u = comment_user_id x \<and> in_window now days (comment_time x)"
  let ?L = "\<lambda>u x. user_id u = like_user_id x \<and> in_window now days (like_time x)"
  let ?F = "\<lambda>u x. user_id u = follower_id x \<and> in_window now days (follow_time x)"
  let ?G = "\<lambda>u x. user_id u = followee_id x \<and> in_window now days (follow_time x)"
  from g obtain row0 where row0: "row0 \<in> set ?J" "?key row0 = k"
    and grows: "grows = filter (\<lambda>r. ?key r = k) ?J"
    by (auto simp: in_group_by)
  obtain u0 p0 c0 l0 f0 g0 where r0: "row0 = (((((u0, p0), c0), l0), f0), g0)" by (metis surj_pair)
  have u0: "u0 \<in> set (users db)" "user_id u0 = uid" "username u0 = un"
    and mp0: "opt_match (set (posts db)) (?P u0) p0"
    and mc0: "opt_match (set (comments db)) (?C u0) c0"
    and ml0: "opt_match (set (likes db)) (?L u0) l0"
    and mf0: "opt_match (set (follows db)) (?F u0) f0"
    and mg0: "opt_match (set (follows db)) (?G u0) g0"
    using row0 unfolding r0 in_user_activity_join k by auto
  have mem: "(((((u0, p), c), l), f), f2) \<in> set grows"
    if "opt_match (set (posts db)) (?P u0) p" "opt_match (set (comments db)) (?C u0) c"
       "opt_match (set (likes db)) (?L u0) l" "opt_match (set (follows db)) (?F u0) f"
       "opt_match (set (follows db)) (?G u0) f2" for p c l f f2
    unfolding grows using that u0 k by (simp add: in_user_activity_join)
  have sub: "user_id u = uid \<and> opt_match (set (posts db)) (?P u) p \<and>
      opt_match (set (comments db)) (?C u) c \<and> opt_match (set (likes db)) (?L u) l \<and>
      opt_match (set (follows db)) (?F u) f \<and> opt_match (set (follows db)) (?G u) f2"
    if "(((((u, p), c), l), f), f2) \<in> set grows" for u p c l f f2
    using that unfolding grows k by (auto simp: in_user_activity_join)
  show "count_distinct (map (\<lambda>(((((u, p), c), l), f), f2). map_option post_id p) grows)
           = card (post_id ` windowed_posts db now days uid)"
  proof (rule count_distinct_eqI, rule iffI)
    fix v assume "\<exists>row\<in>set grows. (\<lambda>(((((u, p), c), l), f), f2). map_option post_id p) row = Some v"
    then obtain u p c l f f2 where row: "(((((u, p), c), l), f), f2) \<in> set grows"
      and v: "map_option post_id p = Some v" by auto
    from v obtain x where x: "p = Some x" "post_id x = v" by auto
    from sub[OF row] show "v \<in> post_id ` windowed_posts db now days uid"
      unfolding x windowed_posts_def opt_match_def using x(2) by force
  next
    fix v assume "v \<in> post_id ` windowed_posts db now days uid"
    then obtain x where x: "x \<in> set (posts db)" "post_user_id x = uid"
      "in_window now days (post_time x)" "v = post_id x"
      by (auto simp: windowed_posts_def)
    then have m1: "opt_match (set (posts db)) (?P u0) (Some x)"
      by (simp add: opt_match_def u0)
    from mem[OF m1 mc0 ml0 mf0 mg0] x(4)
    show "\<exists>row\<in>set grows. (\<lambda>(((((u, p), c), l), f), f2). map_option post_id p) row = Some v"
      by force
  qed
  show "count_distinct (map (\<lambda>(((((u, p), c), l), f), f2). map_option comment_id c) grows)
           = card (comment_id ` windowed_comments db now days uid)"
  proof (rule count_distinct_eqI, rule iffI)
    fix v assume "\<exists>row\<in>set grows. (\<lambda>(((((u, p), c), l), f), f2). map_option comment_id c) row = Some v"
    then obtain u p c l f f2 where row: "(((((u, p), c), l), f), f2) \<in> set grows"
      and v: "map_option comment_id c = Some v" by auto
    from v obtain x where x: "c = Some x" "comment_id x = v" by auto
    from sub[OF row] show "v \<in> comment_id ` windowed_comments db now days uid"
      unfolding x windowed_comments_def opt_match_def using x(2) by force
  next
    fix v assume "v \<in> comment_id ` windowed_comments db now days uid"
    then obtain x where x: "x \<in> set (comments db)" "comment_user_id x = uid"
      "in_window now days (comment_time x)" "v = comment_id x"
      by (auto simp: windowed_comments_def)
    then have m1: "opt_match (set (comments db)) (?C u0) (Some x)"
      by (simp add: opt_match_def u0)
    from mem[OF mp0 m1 ml0 mf0 mg0] x(4)
    show "\<exists>row\<in>set grows. (\<lambda>(((((u, p), c), l), f), f2). map_option comment_id c) row = Some v"
      by force
  qed
  show "count_distinct (map (\<lambda>(((((u, p), c), l), f), f2). map_option like_id l) grows)
           = card (like_id ` windowed_likes db now days uid)"
  proof (rule count_distinct_eqI, rule iffI)
    fix v assume "\<exists>row\<in>set grows. (\<lambda>(((((u, p), c), l), f), f2). map_option like_id l) row = Some v"
    then obtain u p c l f f2 where row: "(((((u, p), c), l), f), f2) \<in> set grows"
      and v: "map_option like_id l = Some v" by auto
    from v obtain x where x: "l = Some x" "like_id x = v" by auto
    from sub[OF row] show "v \<in> like_id ` windowed_likes db now days uid"
      unfolding x windowed_likes_def opt_match_def using x(2) by force
  next
    fix v assume "v \<in> like_id ` windowed_likes db now days uid"
    then obtain x where x: "x \<in> set (likes db)" "like_user_id x = uid"
      "in_window now days (like_time x)" "v = like_id x"
      by (auto simp: windowed_likes_def)
    then have m1: "opt_match (set (likes db)) (?L u0) (Some x)"
      by (simp add: opt_match_def u0)
    from mem[OF mp0 mc0 m1 mf0 mg0] x(4)
    show "\<exists>row\<in>set grows. (\<lambda>(((((u, p), c), l), f), f2). map_option like_id l) row = Some v"
      by force
  qed
  show "count_distinct (map (\<lambda>(((((u, p), c), l), f), f2).
            Option.bind f (\<lambda>x. if in_window now days (follow_time x) then Some (followee_id x) else None)) grows)
           = card (followee_id ` windowed_following db now days uid)"
  proof (rule count_distinct_eqI, rule iffI)
    fix v assume "\<exists>row\<in>set grows. (\<lambda>(((((u, p), c), l), f), f2).
            Option.bind f (\<lambda>x. if in_window now days (follow_time x) then Some (followee_id x) else None)) row = Some v"
    then obtain u p c l f f2 where row: "(((((u, p), c), l), f), f2) \<in> set grows"
      and v: "Option.bind f (\<lambda>x. if in_window now days (follow_time x) then Some (followee_id x) else None) = Some v"
      by auto
    from v obtain x where x: "f = Some x" "followee_id x = v"
      by (cases f) (auto split: if_splits)
    from sub[OF row] show "v \<in> followee_id ` windowed_following db now days uid"
      unfolding x windowed_following_def opt_match_def using x(2) by force
  next
    fix v assume "v \<in> followee_id ` windowed_following db now days uid"
    then obtain x where x: "x \<in> set (follows db)" "follower_id x = uid"
      "in_window now days (follow_time x)" "v = followee_id x"
      by (auto simp: windowed_following_def)
    then have m1: "opt_match (set (follows db)) (?F u0) (Some x)"
      by (simp add: opt_match_def u0)
    from mem[OF mp0 mc0 ml0 m1 mg0] x(3,4)
    show "\<exists>row\<in>set grows. (\<lambda>(((((u, p), c), l), f), f2).
            Option.bind f (\<lambda>x. if in_window now days (follow_time x) then Some (followee_id x) else None)) row = Some v"
      by force
  qed
  show "count_distinct (map (\<lambda>(((((u, p), c), l), f), f2).
            Option.bind f2 (\<lambda>x. if in_window now days (follow_time x) then Some (follower_id x) else None)) grows)
           = card (follower_id ` windowed_followers db now days uid)"
  proof (rule count_distinct_eqI, rule iffI)
    fix v assume "\<exists>row\<in>set grows. (\<lambda>(((((u, p), c), l), f), f2).
            Option.bind f2 (\<lambda>x. if in_window now days (follow_time x) then Some (follower_id x) else None)) row = Some v"
    then obtain u p c l f f2 where row: "(((((u, p), c), l), f), f2) \<in> set grows"
      and v: "Option.bind f2 (\<lambda>x. if in_window now days (follow_time x) then Some (follower_id x) else None) = Some v"
      by auto
    from v obtain x where x: "f2 = Some x" "follower_id x = v"
      by (cases f2) (auto split: if_splits)
    from sub[OF row] show "v \<in> follower_id ` windowed_followers db now days uid"
      unfolding x windowed_followers_def opt_match_def using x(2) by force
  next
    fix v assume "v \<in> follower_id ` windowed_followers db now days uid"
    then obtain x where x: "x \<in> set (follows db)" "followee_id x = uid"
      "in_window now days (follow_time x)" "v = follower_id x"
      by (auto simp: windowed_followers_def)
    then have m1: "opt_match (set (follows db)) (?G u0) (Some x)"
      by (simp add: opt_match_def u0)
    from mem[OF mp0 mc0 ml0 mf0 m1] x(3,4)
    show "\<exists>row\<in>set grows. (\<lambda>(((((u, p), c), l), f), f2).
            Option.bind f2 (\<lambda>x. if in_window now days (follow_time x) then Some (follower_id x) else None)) row = Some v"
      by force
  qed
qed



lemma score_row_sel:
  "ua_user_id (score_row a) = ua_user_id a"
  "ua_post_count (score_row a) = ua_post_count a"
  "ua_comment_count (score_row a) = ua_comment_count a"
  "ua_like_count (score_row a) = ua_like_count a"
  "ua_new_following (score_row a) = ua_new_following a"
  "ua_new_followers (score_row a) = ua_new_followers a"
  "activity_score (score_row a) =
     ua_post_count a * 3 + ua_comment_count a * 2 + ua_like_count a * 1 + ua_new_followers a * 5"
  by (simp_all add: score_row_def user_activity.defs contributor.defs)

lemma user_activity_rows_counts:
  assumes "a \<in> set (user_activity_rows db now days)"
  shows "ua_post_count a = card (post_id ` windowed_posts db now days (ua_user_id a)) \<and>
         ua_comment_count a = card (comment_id ` windowed_comments db now days (ua_user_id a)) \<and>
         ua_like_count a = card (like_id ` windowed_likes db now days (ua_user_id a)) \<and>
         ua_new_following a = card (followee_id ` windowed_following db now days (ua_user_id a)) \<and>
         ua_new_followers a = card (follower_id ` windowed_followers db now days (ua_user_id a))"
proof -
  from assms obtain k grows where
    g: "(k, grows) \<in> set (group_by (\<lambda>(((((u, p), c), l), f), f2). (user_id u, username u))
                 (user_activity_join db now days))"
    and a: "a = (\<lambda>((uid, uname), rows).
            \<lparr>ua_user_id = uid,
             ua_username = uname,
             ua_post_count = count_distinct (map (\<lambda>(((((u, p), c), l), f), f2). map_option post_id p) rows),
             ua_comment_count = count_distinct (map (\<lambda>(((((u, p), c), l), f), f2). map_option comment_id c) rows),
             ua_like_count = count_distinct (map (\<lambda>(((((u, p), c), l), f), f2). map_option like_id l) rows),
             ua_new_following =
               count_distinct (map (\<lambda>(((((u, p), c), l), f), f2).
                  Option.bind f (\<lambda>x. if in_window now days (follow_time x) then Some (followee_id x) else None)) rows),
             ua_new_followers =
               count_distinct (map (\<lambda>(((((u, p), c), l), f), f2).
                  Option.bind f2 (\<lambda>x. if in_window now days (follow_time x) then Some (follower_id x) else None)) rows)\<rparr>) (k, grows)"
    unfolding user_activity_rows_def by auto
  obtain uid un where k: "k = (uid, un)" by (cases k)
  show ?thesis
    unfolding a k using user_activity_group_counts[OF g k] by simp
qed

text \<open>
  C3. In every row of \<open>get_top_contributors\<close> each of the five counts (posts,
  comments and likes authored, new following, new followers) is the number of the
  user's events whose timestamp is not NULL and not older than \<open>days\<close> days before
  now; an event outside the window is counted nowhere.
\<close>

theorem top_contributors_windowed:
  assumes "r \<in> set (get_top_contributors db now days limit)"
  shows "ua_post_count r = card (post_id ` windowed_posts db now days (ua_user_id r)) \<and>
         ua_comment_count r = card (comment_id ` windowed_comments db now days (ua_user_id r)) \<and>
         ua_like_count r = card (like_id ` windowed_likes db now days (ua_user_id r)) \<and>
         ua_new_following r = card (followee_id ` windowed_following db now days (ua_user_id r)) \<and>
         ua_new_followers r = card (follower_id ` windowed_followers db now days (ua_user_id r)) \<and>
         (\<forall>t. in_window now days t \<longleftrightarrow> (\<exists>x. t = Some x \<and> now - days * 86400 \<le> x))"
proof -
  from assms have "r \<in> set (map score_row (user_activity_rows db now days))"
    unfolding get_top_contributors_def by (auto dest!: in_set_takeD simp: set_order_by)
  then obtain a where a: "a \<in> set (user_activity_rows db now days)" and r: "r = score_row a"
    by auto
  have w: "in_window now days t \<longleftrightarrow> (\<exists>x. t = Some x \<and> now - days * 86400 \<le> x)" for t
    by (cases t) (simp_all add: in_window_def ts_ge_def)
  show ?thesis
    unfolding r score_row_sel using user_activity_rows_counts[OF a] w by simp
qed

theorem top_contributors_windowed_witness:
  "hd (get_top_contributors window_db 8640000 30 5) \<in> set (get_top_contributors window_db 8640000 30 5) \<and>
   ua_user_id (hd (get_top_contributors window_db 8640000 30 5)) = 1 \<and>
   ua_post_count (hd (get_top_contributors window_db 8640000 30 5)) = 1 \<and>
   ua_comment_count (hd (get_top_contributors window_db 8640000 30 5)) = 0 \<and>
   ua_like_count (hd (get_top_contributors window_db 8640000 30 5)) = 1 \<and>
   ua_new_following (hd (get_top_contributors window_db 8640000 30 5)) = 0 \<and>
   ua_new_followers (hd (get_top_contributors window_db 8640000 30 5)) = 1 \<and>
   length (posts window_db) = 2 \<and> length (likes window_db) = 2 \<and>
   in_window 8640000 30 (Some 8553600) \<and> \<not> in_window 8640000 30 (Some 5184000)"
proof -
  have e: "get_top_contributors window_db 8640000 30 5 =
    [\<lparr>ua_user_id = 1, ua_username = ''alice'', ua_post_count = 1, ua_comment_count = 0,
      ua_like_count = 1, ua_new_following = 0, ua_new_followers = 1, activity_score = 9\<rparr>,
     \<lparr>ua_user_id = 2, ua_username = ''bob'', ua_post_count = 0, ua_comment_count = 0,
      ua_like_count = 0, ua_new_following = 1, ua_new_followers = 0, activity_score = 0\<rparr>]"
    by code_simp
  have m: "hd (get_top_contributors window_db 8640000 30 5) \<in> set (get_top_contributors window_db 8640000 30 5)"
    unfolding e by simp
  have l: "length (posts window_db) = 2 \<and> length (likes window_db) = 2"
    by (simp add: window_db_def)
  from top_contributors_windowed[OF m] m l show ?thesis
    unfolding e by simp
qed

subsection \<open>The contributors returned\<close>











subsection \<open>Controversial posts\<close>

lemma sum_sq_shift:
  "sum_list (map (\<lambda>x. (real x - m)\<^sup>2) xs) =
     real (sum_list (map (\<lambda>x. x * x) xs)) - 2 * m * real (sum_list xs) + real (length xs) * m\<^sup>2"
  by (induction xs) (simp_all add: power2_eq_square algebra_simps)

lemma sum_sq_dev_eq:
  assumes "xs \<noteq> []"
  shows "real (length xs) * sum_sq_dev xs =
         real (length xs) * real (sum_list (map (\<lambda>x. x * x) xs)) - real (sum_list xs) * real (sum_list xs)"
proof -
  let ?N = "real (length xs)" and ?S = "real (sum_list xs)"
  have N: "?N \<noteq> 0" using assms by simp
  have "sum_sq_dev xs = real (sum_list (map (\<lambda>x. x * x) xs)) - 2 * (?S / ?N) * ?S + ?N * (?S / ?N)\<^sup>2"
    unfolding sum_sq_dev_def Let_def by (rule sum_sq_shift)
  also have "?N * \<dots> = ?N * real (sum_list (map (\<lambda>x. x * x) xs)) - ?S * ?S"
    using N by (simp add: power2_eq_square field_simps)
  finally show ?thesis by simp
qed

lemma STDDEV_PostgreSQL:
  "STDDEV PostgreSQL xs = (if length xs < 2 then None else Some (sample_stddev xs))"
proof (cases "length xs < 2")
  case True
  then show ?thesis by (simp add: STDDEV_def)
next
  case False
  then have ne: "xs \<noteq> []" and N: "real (length xs) \<noteq> 0" "real (length xs) - 1 \<noteq> 0" "length xs \<noteq> 1" by auto
  have "(real (length xs) * real (sum_list (map (\<lambda>x. x * x) xs)) - real (sum_list xs) * real (sum_list xs))
          / (real (length xs) * (real (length xs) - 1)) = sum_sq_dev xs / (real (length xs) - 1)"
    unfolding sum_sq_dev_eq[OF ne, symmetric] using N by simp
  with False N show ?thesis by (simp add: STDDEV_def sample_stddev_def Let_def)
qed

lemma STDDEV_MySQL:
  "STDDEV MySQL xs = (if xs = [] then None else Some (population_stddev xs))"
proof (cases "xs = []")
  case True
  then show ?thesis by (simp add: STDDEV_def)
next
  case False
  then have N: "real (length xs) \<noteq> 0" by auto
  have "(real (length xs) * real (sum_list (map (\<lambda>x. x * x) xs)) - real (sum_list xs) * real (sum_list xs))
          / (real (length xs) * real (length xs)) = sum_sq_dev xs / real (length xs)"
    unfolding sum_sq_dev_eq[OF False, symmetric] using N by simp
  with False show ?thesis by (simp add: STDDEV_def population_stddev_def Let_def)
qed

lemma in_comment_stats:
  assumes "cs \<in> set (comment_stats eng db min_comments)"
  shows "cs_total_comments cs = length (post_comment_lengths db (cs_post_id cs)) \<and>
         cs_stddev_comment_length cs = STDDEV eng (post_comment_lengths db (cs_post_id cs)) \<and>
         min_comments \<le> int (cs_total_comments cs)"
proof -
  from assms obtain pid rows where g: "(pid, rows) \<in> set (group_by comment_post_id (comments db))"
    and cs: "cs = \<lparr>cs_post_id = pid,
                cs_total_comments = length rows,
                cs_avg_comment_length = sql_avg_real (map (\<lambda>c. length (comment_text c)) rows),
                cs_stddev_comment_length = STDDEV eng (map (\<lambda>c. length (comment_text c)) rows),
                cs_unique_commenters = count_distinct (map (\<lambda>c. Some (comment_user_id c)) rows)\<rparr>"
    and mc: "min_comments \<le> int (cs_total_comments cs)"
    unfolding comment_stats_def by auto
  from g have rows: "rows = filter (\<lambda>c. comment_post_id c = pid) (comments db)"
    by (simp add: in_group_by)
  show ?thesis using mc unfolding cs rows post_comment_lengths_def by simp
qed

lemma in_controversial:
  assumes "r \<in> set (identify_controversial_posts eng db min_comments min_stddev)"
  shows "\<exists>sd. cp_total_comments r = length (post_comment_lengths db (cp_post_id r)) \<and>
         cp_stddev_comment_length r = STDDEV eng (post_comment_lengths db (cp_post_id r)) \<and>
         min_comments \<le> int (cp_total_comments r) \<and>
         cp_stddev_comment_length r = Some sd \<and> min_stddev \<le> sd \<and>
         cp_controversy_score r = Some (sd * real (cp_total_comments r))"
proof -
  from assms obtain p cs rd u where
    j: "(p, cs) \<in> set (inner_join (posts db) (comment_stats eng db min_comments) (\<lambda>p cs. post_id p = cs_post_id cs))"
    and w: "case cs_stddev_comment_length cs of None \<Rightarrow> False | Some sd \<Rightarrow> min_stddev \<le> sd"
    and r: "cp_post_id r = post_id p" "cp_total_comments r = cs_total_comments cs"
       "cp_stddev_comment_length r = cs_stddev_comment_length cs"
       "cp_controversy_score r = map_option (\<lambda>sd. sd * real (cs_total_comments cs)) (cs_stddev_comment_length cs)"
    unfolding identify_controversial_posts_def set_order_by
    by (auto simp: set_inner_join in_left_join)
  from j have cs: "cs \<in> set (comment_stats eng db min_comments)" "post_id p = cs_post_id cs"
    by (auto simp: set_inner_join)
  from w obtain sd where sd: "cs_stddev_comment_length cs = Some sd" "min_stddev \<le> sd"
    by (cases "cs_stddev_comment_length cs") auto
  from in_comment_stats[OF cs(1)]
  have a: "cs_total_comments cs = length (post_comment_lengths db (cs_post_id cs))"
    and b: "cs_stddev_comment_length cs = STDDEV eng (post_comment_lengths db (cs_post_id cs))"
    and c: "min_comments \<le> int (cs_total_comments cs)" by auto
  show ?thesis
  proof (intro exI[of _ sd] conjI)
    show "cp_total_comments r = length (post_comment_lengths db (cp_post_id r))"
      unfolding r cs(2) by (rule a)
    show "cp_stddev_comment_length r = STDDEV eng (post_comment_lengths db (cp_post_id r))"
      unfolding r cs(2) by (rule b)
    show "min_comments \<le> int (cp_total_comments r)" unfolding r by (rule c)
    show "cp_stddev_comment_length r = Some sd" unfolding r by (rule sd)
    show "min_stddev \<le> sd" by (rule sd)
    show "cp_controversy_score r = Some (sd * real (cp_total_comments r))"
      unfolding r sd by simp
  qed
qed

text \<open>
  C5 (as amended). For every reported post \<open>stddev_comment_length\<close> is the engine's
  STDDEV of the lengths of the post's comment texts. On PostgreSQL, the engine of the
  default configuration, that is the sample standard deviation (the sum of squared
  deviations divided by \<open>N - 1\<close>) and a reported post has at least two comments: for
  a single comment the deviation is NULL and the post is not reported. On MySQL it is
  the population standard deviation (divided by \<open>N\<close>).
\<close>

theorem controversial_stddev:
  assumes "r \<in> set (identify_controversial_posts eng db min_comments min_stddev)"
  shows "cp_total_comments r = length (post_comment_lengths db (cp_post_id r)) \<and>
         (eng = PostgreSQL \<longrightarrow>
            2 \<le> cp_total_comments r \<and>
            cp_stddev_comment_length r = Some (sample_stddev (post_comment_lengths db (cp_post_id r)))) \<and>
         (eng = MySQL \<longrightarrow>
            1 \<le> cp_total_comments r \<and>
            cp_stddev_comment_length r = Some (population_stddev (post_comment_lengths db (cp_post_id r))))"
proof -
  from in_controversial[OF assms] obtain sd where
    n: "cp_total_comments r = length (post_comment_lengths db (cp_post_id r))"
    and s: "cp_stddev_comment_length r = STDDEV eng (post_comment_lengths db (cp_post_id r))"
    and sd: "cp_stddev_comment_length r = Some sd" by blast
  show ?thesis
  proof (cases eng)
    case PostgreSQL
    with s sd n show ?thesis
      by (auto simp: STDDEV_PostgreSQL split: if_splits)
  next
    case MySQL
    with s sd n show ?thesis
      by (cases "post_comment_lengths db (cp_post_id r)") (auto simp: STDDEV_MySQL split: if_splits)
  qed
qed

lemma comment_stats_sd_db1: "comment_stats PostgreSQL sd_db1 1 =
   [\<lparr>cs_post_id = 10, cs_total_comments = 1, cs_avg_comment_length = Some 5,
     cs_stddev_comment_length = None, cs_unique_commenters = 1\<rparr>]"
  by (simp add: comment_stats_def sd_db1_def group_by_def STDDEV_def sql_avg_real_def count_distinct_def List.map_filter_def)

lemma reply_depth_sd_db1: "reply_depth sd_db1 = []"
  by (simp add: reply_depth_def sd_db1_def group_by_def inner_join_def)

lemma controversial_sd_db1: "identify_controversial_posts PostgreSQL sd_db1 1 0 = []"
  unfolding identify_controversial_posts_def comment_stats_sd_db1 reply_depth_sd_db1
  by (simp add: inner_join_def left_join_def order_by_def sd_db1_def)

lemma comment_stats_sd_db2: "comment_stats MySQL sd_db2 1 =
   [\<lparr>cs_post_id = 10, cs_total_comments = 2, cs_avg_comment_length = Some 2,
     cs_stddev_comment_length = Some 1, cs_unique_commenters = 1\<rparr>]"
  by (simp add: comment_stats_def sd_db2_def group_by_def STDDEV_def sql_avg_real_def count_distinct_def List.map_filter_def)

lemma reply_depth_sd_db2: "reply_depth sd_db2 = []"
  by (simp add: reply_depth_def sd_db2_def group_by_def inner_join_def)

lemma controversial_sd_db2: "identify_controversial_posts MySQL sd_db2 1 0 =
   [\<lparr>cp_post_id = 10, cp_post_text = Some ''p'', cp_post_time = Some 0, cp_author = ''alice'',
     cp_total_comments = 2, cp_unique_commenters = 1, cp_avg_comment_length = Some 2,
     cp_stddev_comment_length = Some 1, cp_reply_count = 0, cp_avg_reply_length = 0,
     cp_controversy_score = Some 2\<rparr>]"
  unfolding identify_controversial_posts_def comment_stats_sd_db2 reply_depth_sd_db2
  by (simp add: inner_join_def left_join_def order_by_def sd_db2_def COALESCE_def)

lemma sample_stddev_sd_db2: "sample_stddev (post_comment_lengths sd_db2 10) = sqrt 2"
  by (simp add: sample_stddev_def post_comment_lengths_def sd_db2_def sum_sq_dev_def)

lemma comment_stats_sd_db3: "comment_stats PostgreSQL sd_db3 1 =
   [\<lparr>cs_post_id = 10, cs_total_comments = 3, cs_avg_comment_length = Some 2,
     cs_stddev_comment_length = Some 1, cs_unique_commenters = 1\<rparr>]"
  by (simp add: comment_stats_def sd_db3_def group_by_def STDDEV_def sql_avg_real_def count_distinct_def List.map_filter_def)

lemma reply_depth_sd_db3: "reply_depth sd_db3 = [\<lparr>rd_post_id = 10, rd_reply_count = 1, rd_avg_reply_length = Some 3\<rparr>]"
  by (simp add: reply_depth_def sd_db3_def group_by_def inner_join_def sql_avg_real_def)

lemma controversial_sd_db3: "identify_controversial_posts PostgreSQL sd_db3 1 1 =
   [\<lparr>cp_post_id = 10, cp_post_text = Some ''p'', cp_post_time = Some 0, cp_author = ''alice'',
     cp_total_comments = 3, cp_unique_commenters = 1, cp_avg_comment_length = Some 2,
     cp_stddev_comment_length = Some 1, cp_reply_count = 1, cp_avg_reply_length = 3,
     cp_controversy_score = Some 3\<rparr>]"
  unfolding identify_controversial_posts_def comment_stats_sd_db3 reply_depth_sd_db3
  by (simp add: inner_join_def left_join_def order_by_def sd_db3_def COALESCE_def)

theorem controversial_stddev_witness:
  "hd (identify_controversial_posts PostgreSQL sd_db3 1 1) \<in> set (identify_controversial_posts PostgreSQL sd_db3 1 1) \<and>
   cp_total_comments (hd (identify_controversial_posts PostgreSQL sd_db3 1 1)) = 3 \<and>
   post_comment_lengths sd_db3 10 = [1, 2, 3] \<and>
   cp_stddev_comment_length (hd (identify_controversial_posts PostgreSQL sd_db3 1 1)) = Some 1 \<and>
   sample_stddev (post_comment_lengths sd_db3 10) = 1 \<and>
   hd (identify_controversial_posts MySQL sd_db2 1 0) \<in> set (identify_controversial_posts MySQL sd_db2 1 0) \<and>
   cp_stddev_comment_length (hd (identify_controversial_posts MySQL sd_db2 1 0)) = Some 1 \<and>
   population_stddev (post_comment_lengths sd_db2 10) = 1"
proof -
  have m3: "hd (identify_controversial_posts PostgreSQL sd_db3 1 1) \<in> set (identify_controversial_posts PostgreSQL sd_db3 1 1)"
    unfolding controversial_sd_db3 by simp
  have m2: "hd (identify_controversial_posts MySQL sd_db2 1 0) \<in> set (identify_controversial_posts MySQL sd_db2 1 0)"
    unfolding controversial_sd_db2 by simp
  have l: "post_comment_lengths sd_db3 10 = [1, 2, 3]"
    by (simp add: post_comment_lengths_def sd_db3_def)
  from controversial_stddev[OF m3] controversial_stddev[OF m2] m3 m2 l show ?thesis
    unfolding controversial_sd_db3 controversial_sd_db2 by simp
qed

text \<open>
  C5 as stated takes the deviation of a single comment as 0 and divides by \<open>N - 1\<close>.
  On PostgreSQL the deviation of a single comment is NULL and the post is not reported,
  whatever the thresholds; on MySQL two comments of 1 and 3 characters have the
  deviation 1, where the sample standard deviation is the root of 2.
\<close>

theorem controversial_stddev_counterexample:
  "post_comment_lengths sd_db1 10 = [5] \<and>
   map cs_stddev_comment_length (comment_stats PostgreSQL sd_db1 1) = [None] \<and>
   identify_controversial_posts PostgreSQL sd_db1 1 0 = [] \<and>
   map cp_stddev_comment_length (identify_controversial_posts MySQL sd_db2 1 0) = [Some 1] \<and>
   sample_stddev (post_comment_lengths sd_db2 10) = sqrt 2 \<and> sqrt 2 \<noteq> (1::real)"
proof -
  have "post_comment_lengths sd_db1 10 = [5]"
    by (simp add: post_comment_lengths_def sd_db1_def)
  then show ?thesis
    by (simp add: comment_stats_sd_db1 controversial_sd_db1 controversial_sd_db2 sample_stddev_sd_db2)
qed

subsection \<open>Thread depth\<close>

lemma set_cte_step:
  "set (cte_step cs w) =
     {(c, Suc d) | c d. c \<in> set cs \<and> (\<exists>p. (p, d) \<in> set w \<and> parent_comment_id c = Some (comment_id p))}"
  by (auto simp: cte_step_def set_inner_join) force

lemma set_cte_round:
  "set (cte_round cs k) = {(c, Suc k) | c. c \<in> set cs \<and> at_level cs k c}"
proof (induction k)
  case 0
  show ?case by (auto simp: cte_base_def)
next
  case (Suc k)
  show ?case
    unfolding cte_round.simps set_cte_step Suc.IH by auto
qed

lemma cte_step_Nil: "cte_step cs [] = []"
  by (simp add: cte_step_def inner_join_def)

lemma cte_round_stays_empty:
  "cte_round cs k = [] \<Longrightarrow> cte_round cs (k + j) = []"
  by (induction j) (simp_all add: cte_step_Nil)

lemma cte_loop_Nil: "cte_loop fuel cs [] = Inr []"
  by (cases fuel) simp_all

lemma cte_loop_rounds:
  assumes "cte_round cs K = []"
  shows "k \<le> K \<Longrightarrow> K - k \<le> fuel \<Longrightarrow>
         cte_loop fuel cs (cte_round cs k) = Inr (concat (map (cte_round cs) [k..<K]))"
proof (induction "K - k" arbitrary: k fuel)
  case 0
  then have "k = K" by simp
  with assms show ?case by (simp add: cte_loop_Nil)
next
  case (Suc n)
  then have lt: "k < K" and n: "n = K - Suc k" and le: "Suc k \<le> K" by auto
  show ?case
  proof (cases "cte_round cs k = []")
    case True
    have "cte_round cs j = []" if "j \<in> set [k..<K]" for j
    proof -
      from that have "j = k + (j - k)" by simp
      then show ?thesis using cte_round_stays_empty[OF True, of "j - k"] by simp
    qed
    then have "concat (map (cte_round cs) [k..<K]) = []" by simp
    with True show ?thesis by (simp add: cte_loop_Nil)
  next
    case False
    from Suc.hyps(2) Suc.prems(2) obtain f where fuel: "fuel = Suc f" and f: "K - Suc k \<le> f"
      by (cases fuel) auto
    have IH: "cte_loop f cs (cte_round cs (Suc k)) = Inr (concat (map (cte_round cs) [Suc k..<K]))"
      using Suc.hyps(1)[OF n le f] .
    have "cte_loop fuel cs (cte_round cs k) =
            Inr (cte_round cs k @ concat (map (cte_round cs) [Suc k..<K]))"
      unfolding fuel using False IH by simp
    also have "cte_round cs k @ concat (map (cte_round cs) [Suc k..<K]) = concat (map (cte_round cs) [k..<K])"
      using lt by (simp add: upt_conv_Cons)
    finally show ?thesis .
  qed
qed

lemma at_level_unique:
  assumes "distinct (map comment_id cs)"
  shows "at_level cs j c \<Longrightarrow> at_level cs k c \<Longrightarrow> j = k"
proof (induction j arbitrary: k c)
  case 0
  then show ?case by (cases k) auto
next
  case (Suc j)
  from Suc.prems(1) obtain p where p: "p \<in> set cs" "parent_comment_id c = Some (comment_id p)"
    "at_level cs j p" by auto
  show ?case
  proof (cases k)
    case 0
    with Suc.prems(2) p(2) show ?thesis by simp
  next
    case (Suc k')
    with Suc.prems(2) obtain q where q: "q \<in> set cs" "parent_comment_id c = Some (comment_id q)"
      "at_level cs k' q" by auto
    from p(2) q(2) have "comment_id p = comment_id q" by simp
    with assms p(1) q(1) have "p = q" by (meson distinct_map inj_onD)
    with Suc.IH[OF p(3)] q(3) have "j = k'" by simp
    with Suc show ?thesis by simp
  qed
qed


lemma rooted:
  assumes pk: "pk_comments db" and fk: "fk_comment_parent db" and ac: "acyclic (parent_links db)"
    and c: "c \<in> set (comments db)"
  shows "\<exists>k. at_level (comments db) k c"
proof -
  let ?cs = "comments db"
  have "parent_links db \<subseteq> (\<lambda>c. (comment_id c, the (parent_comment_id c))) ` set ?cs"
    by (force simp: parent_links_def)
  then have "finite (parent_links db)" by (rule finite_surj[rotated]) simp
  then have wf: "wf ((parent_links db)\<inverse>)" using ac by (rule finite_acyclic_wf_converse)
  have "\<forall>c\<in>set ?cs. comment_id c = x \<longrightarrow> (\<exists>k. at_level ?cs k c)" for x
    using wf
  proof (induction x rule: wf_induct_rule)
    case (less x)
    show ?case
    proof (intro ballI impI)
      fix c assume c: "c \<in> set ?cs" "comment_id c = x"
      show "\<exists>k. at_level ?cs k c"
      proof (cases "parent_comment_id c")
        case None
        then have "at_level ?cs 0 c" by simp
        then show ?thesis ..
      next
        case (Some pid)
        from fk c(1) have "case parent_comment_id c of None \<Rightarrow> True
            | Some pid \<Rightarrow> pid \<in> set (map comment_id ?cs)"
          by (simp add: fk_comment_parent_def list_all_iff)
        with Some have "pid \<in> comment_id ` set ?cs" by simp
        then obtain p where p: "p \<in> set ?cs" "comment_id p = pid" by auto
        from c Some have "(pid, x) \<in> (parent_links db)\<inverse>"
          by (auto simp: parent_links_def)
        from less[OF this] p obtain k where "at_level ?cs k p" by blast
        with p Some have "at_level ?cs (Suc k) c" by auto
        then show ?thesis ..
      qed
    qed
  qed
  with c show ?thesis by blast
qed

lemma thread_rows_unique:
  assumes "distinct (map comment_id cs)" "(c, d) \<in> thread_rows cs" "(c, d') \<in> thread_rows cs"
  shows "d = d'"
  using assms(2,3) at_level_unique[OF assms(1)] by (auto simp: thread_rows_def)

lemma thread_rows_top: "c \<in> set cs \<Longrightarrow> parent_comment_id c = None \<Longrightarrow> (c, 1) \<in> thread_rows cs"
  by (auto simp: thread_rows_def)

lemma thread_rows_reply:
  assumes "c \<in> set cs" "parent_comment_id c = Some (comment_id p)" "(p, d) \<in> thread_rows cs"
  shows "(c, d + 1) \<in> thread_rows cs"
proof -
  from assms(3) obtain k where k: "d = Suc k" "p \<in> set cs" "at_level cs k p"
    by (auto simp: thread_rows_def)
  with assms(1,2) have "at_level cs (Suc k) c" by auto
  with assms(1) k(1) show ?thesis by (auto simp: thread_rows_def)
qed



lemma thread_group_row:
  assumes g: "(key, grows) \<in> set (group_by (\<lambda>((p, ct), u). (post_id p, post_text p)) (thread_join db cts))"
    and fku: "fk_comment_user db"
    and sub: "fst ` set cts \<subseteq> set (comments db)"
  shows "{d. \<exists>c. comment_post_id c = fst key \<and> (c, d) \<in> set cts} \<noteq> {}"
    and "min_depth \<le> int (Max {d. \<exists>c. comment_post_id c = fst key \<and> (c, d) \<in> set cts}) \<Longrightarrow>
         \<exists>r. thread_depth_group min_depth (key, grows) = Some r"
    and "thread_depth_group min_depth (key, grows) = Some r \<Longrightarrow>
         td_post_id r = fst key \<and>
         td_max_thread_depth r = Max {d. \<exists>c. comment_post_id c = fst key \<and> (c, d) \<in> set cts} \<and>
         min_depth \<le> int (td_max_thread_depth r) \<and>
         td_total_comments r =
           card (comment_id ` {c. comment_post_id c = fst key \<and> (\<exists>d. (c, d) \<in> set cts)})"
proof -
  obtain pid ptext where key: "key = (pid, ptext)" by (cases key)
  let ?k = "\<lambda>((p, ct), u). (post_id p, post_text p)"
  let ?depths = "map (\<lambda>((p, ct), u). snd ct) grows"
  let ?D = "{d. \<exists>c. comment_post_id c = pid \<and> (c, d) \<in> set cts}"
  from g obtain row0 where row0: "row0 \<in> set (thread_join db cts)" "?k row0 = key"
    and grows: "grows = filter (\<lambda>r. ?k r = key) (thread_join db cts)"
    by (auto simp: in_group_by)
  obtain p0 ct0 u0 where r0: "row0 = ((p0, ct0), u0)" by (metis surj_pair)
  have p0: "p0 \<in> set (posts db)" "post_id p0 = pid" "post_text p0 = ptext"
    using row0 unfolding r0 key thread_join_def by (auto simp: set_inner_join)
  have in_grows: "((p, ct), u) \<in> set grows \<longleftrightarrow>
      p \<in> set (posts db) \<and> post_id p = pid \<and> post_text p = ptext \<and> ct \<in> set cts \<and>
      comment_post_id (fst ct) = pid \<and> u \<in> set (users db) \<and> comment_user_id (fst ct) = user_id u"
    for p ct u
    unfolding grows key thread_join_def by (auto simp: set_inner_join)
  have user: "\<exists>u. u \<in> set (users db) \<and> comment_user_id c = user_id u" if "(c, d) \<in> set cts" for c d
  proof -
    from that sub have "c \<in> set (comments db)" by force
    with fku show ?thesis by (auto simp: fk_comment_user_def list_all_iff)
  qed
  have row0g: "row0 \<in> set grows" using row0 by (simp add: grows)
  then have ne: "grows \<noteq> []" by auto
  have D: "set ?depths = ?D"
  proof (rule set_eqI, rule iffI)
    fix d assume "d \<in> set ?depths"
    then obtain p ct u where "((p, ct), u) \<in> set grows" "snd ct = d" by auto
    then show "d \<in> ?D" unfolding in_grows by (cases ct) auto
  next
    fix d assume "d \<in> ?D"
    then obtain c where c: "comment_post_id c = pid" "(c, d) \<in> set cts" by blast
    from user[OF c(2)] obtain u where u: "u \<in> set (users db)" "comment_user_id c = user_id u" by blast
    have "((p0, (c, d)), u) \<in> set grows" unfolding in_grows using p0 c u by simp
    then have "(\<lambda>((p, ct), u). snd ct) ((p0, (c, d)), u) \<in> set ?depths"
      unfolding set_map by (rule imageI)
    then show "d \<in> set ?depths" by simp
  qed
  have C: "{v. Some v \<in> set (map (\<lambda>((p, ct), u). Some (comment_id (fst ct))) grows)}
           = comment_id ` {c. comment_post_id c = pid \<and> (\<exists>d. (c, d) \<in> set cts)}" (is "?A = ?B")
  proof (rule set_eqI, rule iffI)
    fix v assume "v \<in> ?A"
    then obtain row where row: "row \<in> set grows" "(\<lambda>((p, ct), u). Some (comment_id (fst ct))) row = Some v"
      by auto
    obtain p ct u where rw: "row = ((p, ct), u)" by (metis surj_pair)
    obtain c d where ct: "ct = (c, d)" by (cases ct)
    from row show "v \<in> ?B" unfolding rw ct in_grows by auto
  next
    fix v assume "v \<in> ?B"
    then obtain c d where c: "comment_post_id c = pid" "(c, d) \<in> set cts" "v = comment_id c" by blast
    from user[OF c(2)] obtain u where u: "u \<in> set (users db)" "comment_user_id c = user_id u" by blast
    have "((p0, (c, d)), u) \<in> set grows" unfolding in_grows using p0 c u by simp
    then have "(\<lambda>((p, ct), u). Some (comment_id (fst ct))) ((p0, (c, d)), u)
        \<in> set (map (\<lambda>((p, ct), u). Some (comment_id (fst ct))) grows)"
      unfolding set_map by (rule imageI)
    then show "v \<in> ?A" using c(3) by simp
  qed
  have dne: "?depths \<noteq> []" using ne by simp
  from dne obtain x xs where dx: "?depths = x # xs" by (cases ?depths) auto
  then have mx: "sql_max ?depths = Some (Max ?D)"
    using D Max.set_eq_fold[of x xs] by simp
  have av: "sql_avg ?depths \<noteq> None" using dne by (simp add: sql_avg_def)
  show "{d. \<exists>c. comment_post_id c = fst key \<and> (c, d) \<in> set cts} \<noteq> {}"
  proof -
    from dne have "set ?depths \<noteq> {}" by simp
    then show ?thesis unfolding D key by simp
  qed
  show "\<exists>r. thread_depth_group min_depth (key, grows) = Some r"
    if "min_depth \<le> int (Max {d. \<exists>c. comment_post_id c = fst key \<and> (c, d) \<in> set cts})"
    using that mx av unfolding key thread_depth_group_def by (auto simp: Let_def)
  show "td_post_id r = fst key \<and>
         td_max_thread_depth r = Max {d. \<exists>c. comment_post_id c = fst key \<and> (c, d) \<in> set cts} \<and>
         min_depth \<le> int (td_max_thread_depth r) \<and>
         td_total_comments r =
           card (comment_id ` {c. comment_post_id c = fst key \<and> (\<exists>d. (c, d) \<in> set cts)})"
    if "thread_depth_group min_depth (key, grows) = Some r"
    using that mx av C unfolding key thread_depth_group_def
    by (auto simp: Let_def count_distinct_card split: if_splits)
qed






lemma comment_threads_Inr:
  assumes "threads_within cap db"
  shows "\<exists>cts. comment_threads cap (comments db) = Inr cts \<and> set cts = thread_rows (comments db)"
proof -
  let ?cs = "comments db"
  have none: "\<not> at_level ?cs cap c" if "c \<in> set ?cs" for c
  proof
    assume "at_level ?cs cap c"
    with that have "Suc cap \<in> post_depths db (comment_post_id c)" by (auto simp: post_depths_def)
    with assms have "Suc cap \<le> cap" unfolding threads_within_def by blast
    then show False by simp
  qed
  have "set (cte_round ?cs cap) = {}" unfolding set_cte_round using none by auto
  then have K: "cte_round ?cs cap = []" by simp
  let ?cts = "concat (map (cte_round ?cs) [0..<cap])"
  have 1: "comment_threads cap ?cs = Inr ?cts"
    unfolding comment_threads_def using cte_loop_rounds[OF K, of 0 cap] by simp
  have empty_above: "\<not> at_level ?cs k c" if "c \<in> set ?cs" "cap \<le> k" for c k
  proof
    assume "at_level ?cs k c"
    with that(1) have "(c, Suc k) \<in> set (cte_round ?cs k)" by (simp add: set_cte_round)
    moreover have "cte_round ?cs k = []"
      using cte_round_stays_empty[OF K, of "k - cap"] that(2) by simp
    ultimately show False by simp
  qed
  have "set ?cts = thread_rows ?cs"
  proof (rule set_eqI, rule iffI)
    fix x assume "x \<in> set ?cts"
    then show "x \<in> thread_rows ?cs" by (auto simp: set_cte_round thread_rows_def)
  next
    fix x assume "x \<in> thread_rows ?cs"
    then obtain c k where x: "x = (c, Suc k)" "c \<in> set ?cs" "at_level ?cs k c"
      by (auto simp: thread_rows_def)
    with empty_above[of c k] have "k < cap" by (meson not_le)
    with x show "x \<in> set ?cts" by (auto simp: set_cte_round)
  qed
  with 1 show ?thesis by blast
qed

text \<open>
  On MySQL, on a snapshot that satisfies the constraints of the comments table, whose
  parent links do not cycle and whose threads stay within the recursion bound, the
  query runs: the recursive expression gives every comment exactly one depth, 1 to a
  comment without parent and the parent's depth plus 1 to a reply, and in every result
  the \<open>max_thread_depth\<close> of a post is the greatest depth among its comments.
\<close>

lemma thread_depth_assignment_mysql:
  assumes "pk_comments db" and "fk_comment_parent db" and "acyclic (parent_links db)"
    and "fk_comment_user db" and "threads_within cap db"
  shows "\<exists>cts S.
           comment_threads cap (comments db) = Inr cts \<and>
           analyze_thread_depth MySQL cap db min_depth = Inr S \<and> S \<noteq> {} \<and>
           (\<forall>c\<in>set (comments db). \<exists>!d. (c, d) \<in> set cts) \<and>
           (\<forall>c\<in>set (comments db). parent_comment_id c = None \<longrightarrow> (c, 1) \<in> set cts) \<and>
           (\<forall>c\<in>set (comments db). \<forall>p d. parent_comment_id c = Some (comment_id p) \<and> (p, d) \<in> set cts
               \<longrightarrow> (c, d + 1) \<in> set cts) \<and>
           (\<forall>res\<in>S. \<forall>r\<in>set res. td_max_thread_depth r =
               Max {d. \<exists>c. comment_post_id c = td_post_id r \<and> (c, d) \<in> set cts})"
proof -
  let ?cs = "comments db"
  let ?key = "\<lambda>r. (- int (td_max_thread_depth r), - int (td_total_comments r))"
  have d: "distinct (map comment_id ?cs)" using assms(1) by (simp add: pk_comments_def)
  from comment_threads_Inr[OF assms(5)] obtain cts where cts: "comment_threads cap ?cs = Inr cts"
    and rows: "set cts = thread_rows ?cs" by blast
  let ?S = "ordered_by ?key (thread_depth_rows db cts min_depth)"
  have res: "analyze_thread_depth MySQL cap db min_depth = Inr ?S"
    by (simp add: analyze_thread_depth_def cts)
  have ne: "?S \<noteq> {}" using ordered_by_order_by by blast
  have sub: "fst ` set cts \<subseteq> set ?cs" unfolding rows by (auto simp: thread_rows_def)
  have 1: "\<forall>c\<in>set ?cs. \<exists>!d. (c, d) \<in> set cts"
  proof
    fix c assume c: "c \<in> set ?cs"
    from rooted[OF assms(1-3) c] obtain k where "at_level ?cs k c" ..
    with c have "(c, Suc k) \<in> set cts" unfolding rows by (auto simp: thread_rows_def)
    then show "\<exists>!d. (c, d) \<in> set cts"
      using thread_rows_unique[OF d] unfolding rows by blast
  qed
  have 2: "\<forall>c\<in>set ?cs. parent_comment_id c = None \<longrightarrow> (c, 1) \<in> set cts"
    unfolding rows using thread_rows_top by blast
  have 3: "\<forall>c\<in>set ?cs. \<forall>p d. parent_comment_id c = Some (comment_id p) \<and> (p, d) \<in> set cts
               \<longrightarrow> (c, d + 1) \<in> set cts"
    unfolding rows using thread_rows_reply by blast
  have 4: "\<forall>res\<in>?S. \<forall>r\<in>set res. td_max_thread_depth r =
               Max {d. \<exists>c. comment_post_id c = td_post_id r \<and> (c, d) \<in> set cts}"
  proof (intro ballI)
    fix res r assume "res \<in> ?S" "r \<in> set res"
    then have "r \<in> set (thread_depth_rows db cts min_depth)" by (simp add: ordered_by_set)
    then obtain key grows where
      g: "(key, grows) \<in> set (group_by (\<lambda>((p, ct), u). (post_id p, post_text p)) (thread_join db cts))"
      and r: "thread_depth_group min_depth (key, grows) = Some r"
      unfolding thread_depth_rows_def set_map_filter by auto
    from thread_group_row(3)[OF g assms(4) sub r]
    show "td_max_thread_depth r = Max {d. \<exists>c. comment_post_id c = td_post_id r \<and> (c, d) \<in> set cts}"
      by simp
  qed
  from cts res ne 1 2 3 4 show ?thesis by blast
qed

lemma analyze_thread_depth_postgresql:
  "analyze_thread_depth PostgreSQL cap db min_depth = Inl SyntaxError"
  by (simp add: analyze_thread_depth_def)

text \<open>
  C1. Every comment is given a depth, 1 without parent and the parent's depth plus 1
  otherwise, and every reported post the greatest depth of its comments. On the engine
  of the default configuration the statement does not get that far: with the thread of
  three comments, as with any snapshot, the call raises and reports nothing.
\<close>

theorem thread_depth_raises_on_default_engine:
  "analyze_thread_depth PostgreSQL 1000 thread_db 1 = Inl SyntaxError"
  by (simp add: analyze_thread_depth_def)









end
